theory Spec2Isabelle
  imports Main "HOL-Library.Word" "HOL-Library.Multiset"
begin

section \<open>The grid of x2048 (src/x2048/2048.cc, class Grid, lines 151-433)\<close>

text \<open>
  The class stores \<open>storage_t = i64\<close> cells in a row-major array \<open>mGrid\<close> of
  \<open>mWidth * mHeight\<close> entries, the cell \<open>(x, y)\<close> at index \<open>x + y * mWidth\<close>, and an
  \<open>i64\<close> score. Cells and score are 64-bit words; \<open>*\<close> and \<open>+\<close> on them wrap around
  (what the compiled code does where C++ leaves signed overflow undefined), and
  comparisons with 0 read them as signed (\<open>sint\<close>). \<open>slide\<close> returns a C++ \<open>int\<close>:
  a 32-bit word. Coordinates and dimensions are C++ \<open>int\<close>s that only take part in
  comparisons and in index arithmetic below \<open>mWidth * mHeight\<close>; they are HOL integers.
\<close>

type_synonym i64 = "64 word"
type_synonym i32 = "32 word"

datatype DIRECTION = UP | DOWN | RIGHT | LEFT

datatype error = OutOfRange

record Grid =
  mWidth :: int
  mHeight :: int
  mGrid :: "i64 list"
  mScore :: i64

text \<open>What the constructor and \<open>reset\<close> establish: the array has one entry per cell.\<close>

definition well_formed :: "Grid \<Rightarrow> bool" where
  "well_formed g \<longleftrightarrow> 0 \<le> mWidth g \<and> 0 \<le> mHeight g \<and>
     int (length (mGrid g)) = mWidth g * mHeight g"

text \<open>
  \<open>reset()\<close> (lines 169-175): a zeroed array and score 0. The constructor (line 154)
  sets the dimensions and calls it.
\<close>

definition reset :: "Grid \<Rightarrow> Grid" where
  "reset g = g\<lparr>mGrid := replicate (nat (mWidth g * mHeight g)) 0, mScore := 0\<rparr>"

definition new_Grid :: "int \<Rightarrow> int \<Rightarrow> Grid" where
  "new_Grid w h = reset \<lparr>mWidth = w, mHeight = h, mGrid = [], mScore = 0\<rparr>"

subsection \<open>get and put\<close>

text \<open>
  The two overloads of \<open>get\<close> (lines 370-380) make the same test. The non-const one
  returns a reference into \<open>mGrid\<close>: \<open>get_ref\<close> is the index it refers to, or the
  exception it throws. The const one returns the value: \<open>get\<close>.
\<close>

definition get_ref :: "Grid \<Rightarrow> int \<Rightarrow> int \<Rightarrow> error + nat" where
  "get_ref g x y =
     (if x \<ge> mWidth g \<or> x < 0 \<or> y < 0 \<or> y \<ge> mHeight g then Inl OutOfRange
      else Inr (nat (x + y * mWidth g)))"

definition get :: "Grid \<Rightarrow> int \<Rightarrow> int \<Rightarrow> error + i64" where
  "get g x y =
     (if x \<ge> mWidth g \<or> x < 0 \<or> y < 0 \<or> y \<ge> mHeight g then Inl OutOfRange
      else Inr (mGrid g ! nat (x + y * mWidth g)))"

text \<open>
  \<open>put\<close> (lines 382-384) is \<open>get(x, y) = val\<close>. It returns the grid after the call together with the
  outcome: when \<open>get\<close> throws, nothing has been stored.
\<close>

definition put :: "Grid \<Rightarrow> int \<Rightarrow> int \<Rightarrow> i64 \<Rightarrow> Grid \<times> (error + unit)" where
  "put g x y val =
     (case get_ref g x y of
        Inl e \<Rightarrow> (g, Inl e)
      | Inr i \<Rightarrow> (g\<lparr>mGrid := (mGrid g)[i := val]\<rparr>, Inr ()))"

text \<open>
  The macro \<open>__iter(iname, maxi)\<close> (line 296), and every \<open>for\<close> of the class:
  \<open>iname\<close> runs through 0, 1, ..., \<open>maxi - 1\<close>.
\<close>

definition iter :: "int \<Rightarrow> int list" where
  "iter maxi = map int [0..<nat maxi]"

subsection \<open>is_full and is_fail\<close>

text \<open>
  \<open>is_full\<close> (lines 177-186) looks for an entry of the array that is 0; \<open>is_fail\<close>
  (lines 188-205) returns false when the board is not full and then visits every cell.
\<close>

definition is_full :: "Grid \<Rightarrow> bool" where
  "is_full g = (\<not> list_ex (\<lambda>i. mGrid g ! i = 0) [0..<nat (mWidth g * mHeight g)])"

text \<open>\<open>cur == get(x, y)\<close> inside \<open>is_fail\<close>; the call may throw.\<close>

definition cur_eq :: "Grid \<Rightarrow> i64 \<Rightarrow> int \<Rightarrow> int \<Rightarrow> error + bool" where
  "cur_eq g cur x y = (case get g x y of Inl e \<Rightarrow> Inl e | Inr v \<Rightarrow> Inr (cur = v))"

text \<open>
  The body of the two loops of \<open>is_fail\<close> at \<open>(x, y)\<close>: \<open>Inr True\<close> when one of the four
  tests executes \<open>return false\<close>, \<open>Inr False\<close> when the loop goes on. The guards are
  those of the source: \<open>y < width() - 1\<close> before the cell below and
  \<open>x < height() - 1\<close> before the cell to the right.
\<close>

definition is_fail_body :: "Grid \<Rightarrow> int \<Rightarrow> int \<Rightarrow> error + bool" where
  "is_fail_body g x y =
     (case get g x y of
        Inl e \<Rightarrow> Inl e
      | Inr cur \<Rightarrow>
          (case (if y > 0 then cur_eq g cur x (y - 1) else Inr False) of
             Inl e \<Rightarrow> Inl e
           | Inr True \<Rightarrow> Inr True
           | Inr False \<Rightarrow>
          (case (if y < mWidth g - 1 then cur_eq g cur x (y + 1) else Inr False) of
             Inl e \<Rightarrow> Inl e
           | Inr True \<Rightarrow> Inr True
           | Inr False \<Rightarrow>
          (case (if x > 0 then cur_eq g cur (x - 1) y else Inr False) of
             Inl e \<Rightarrow> Inl e
           | Inr True \<Rightarrow> Inr True
           | Inr False \<Rightarrow>
          (if x < mHeight g - 1 then cur_eq g cur (x + 1) y else Inr False)))))"

fun is_fail_loop :: "Grid \<Rightarrow> (int \<times> int) list \<Rightarrow> error + bool" where
  "is_fail_loop g [] = Inr True"
| "is_fail_loop g ((x, y) # ps) =
     (case is_fail_body g x y of
        Inl e \<Rightarrow> Inl e
      | Inr True \<Rightarrow> Inr False
      | Inr False \<Rightarrow> is_fail_loop g ps)"

text \<open>The cells in the order of the loops: \<open>x\<close> outside, \<open>y\<close> inside.\<close>

definition is_fail_order :: "Grid \<Rightarrow> (int \<times> int) list" where
  "is_fail_order g = concat (map (\<lambda>x. map (\<lambda>y. (x, y)) (iter (mHeight g))) (iter (mWidth g)))"

definition is_fail :: "Grid \<Rightarrow> error + bool" where
  "is_fail g = (if \<not> is_full g then Inr False else is_fail_loop g (is_fail_order g))"

subsection \<open>slide\<close>

text \<open>\<open>__get_dire\<close> (lines 401-417): the cell \<open>coord\<close> steps from \<open>(x, y)\<close>.\<close>

definition get_dire :: "Grid \<Rightarrow> int \<Rightarrow> int \<Rightarrow> DIRECTION \<Rightarrow> int \<Rightarrow> error + nat" where
  "get_dire g x y dire coord =
     (case dire of
        UP \<Rightarrow> get_ref g x (y - coord)
      | DOWN \<Rightarrow> get_ref g x (y + coord)
      | RIGHT \<Rightarrow> get_ref g (x + coord) y
      | LEFT \<Rightarrow> get_ref g (x - coord) y)"

text \<open>
  \<open>slide\<close> (lines 242-274). First the handler \<open>catch(std::out_of_range &)\<close>: an
  exception of \<open>__get_dire\<close> in the \<open>try\<close> block and the two \<open>throw\<close>s there
  all end in it. \<open>cur\<close> is the index of the cell \<open>(x, y)\<close>. An exception of
  \<open>__get_dire\<close> inside the handler leaves \<open>slide\<close>.
\<close>

definition slide_catch ::
  "Grid \<Rightarrow> int \<Rightarrow> int \<Rightarrow> DIRECTION \<Rightarrow> nat \<Rightarrow> int \<Rightarrow> error + (i32 \<times> Grid)" where
  "slide_catch g x y dire cur coord =
     (if coord > 1 then
        (case get_dire g x y dire (coord - 1) of
           Inl e \<Rightarrow> Inl e
         | Inr target \<Rightarrow>
             (let cells1 = (mGrid g)[target := mGrid g ! cur];
                  cells2 = cells1[cur := 0]
              in Inr (0, g\<lparr>mGrid := cells2\<rparr>)))
      else Inr (- 1, g))"

text \<open>
  The \<open>while(true)\<close> of \<open>slide\<close>. It ends: \<open>coord\<close> grows until \<open>__get_dire\<close>
  leaves the grid. \<open>return target\<close> converts the \<open>i64\<close> cell to \<open>int\<close>: the low 32
  bits, read as signed (what C++20 prescribes and compilers did before).
\<close>

function slide_loop ::
  "Grid \<Rightarrow> int \<Rightarrow> int \<Rightarrow> DIRECTION \<Rightarrow> bool \<Rightarrow> nat \<Rightarrow> int \<Rightarrow> error + (i32 \<times> Grid)" where
  "slide_loop g x y dire skip_merge cur coord =
     (case get_dire g x y dire coord of
        Inl e \<Rightarrow> slide_catch g x y dire cur coord
      | Inr target \<Rightarrow>
          (if mGrid g ! target \<noteq> 0 then
             (if skip_merge then slide_catch g x y dire cur coord
              else if mGrid g ! target = mGrid g ! cur then
                (let cells1 = (mGrid g)[target := mGrid g ! target * 2];
                     cells2 = cells1[cur := 0]
                 in Inr (ucast (cells2 ! target), g\<lparr>mGrid := cells2\<rparr>))
              else slide_catch g x y dire cur coord)
           else slide_loop g x y dire skip_merge cur (coord + 1)))"
  by pat_completeness auto
termination
proof (relation "measure (\<lambda>(g, x, y, dire, skip_merge, cur, coord).
          nat (mWidth g + mHeight g + \<bar>x\<bar> + \<bar>y\<bar> + 1 - coord))")
  show "wf (measure (\<lambda>(g, x, y, dire, skip_merge, cur, coord).
          nat (mWidth g + mHeight g + \<bar>x\<bar> + \<bar>y\<bar> + 1 - coord)))"
    by simp
next
  fix g :: Grid and x y :: int and dire :: DIRECTION and skip_merge :: bool
    and cur :: nat and coord :: int and target :: nat
  assume "get_dire g x y dire coord = Inr target"
  then have "coord < mWidth g + mHeight g + \<bar>x\<bar> + \<bar>y\<bar> + 1"
    by (cases dire) (auto simp: get_dire_def get_ref_def split: if_splits)
  then show "((g, x, y, dire, skip_merge, cur, coord + 1),
              (g, x, y, dire, skip_merge, cur, coord))
        \<in> measure (\<lambda>(g, x, y, dire, skip_merge, cur, coord).
            nat (mWidth g + mHeight g + \<bar>x\<bar> + \<bar>y\<bar> + 1 - coord))"
    by simp
qed

definition slide :: "Grid \<Rightarrow> int \<Rightarrow> int \<Rightarrow> DIRECTION \<Rightarrow> bool \<Rightarrow> error + (i32 \<times> Grid)" where
  "slide g x y dire skip_merge =
     (case get_ref g x y of
        Inl e \<Rightarrow> Inl e
      | Inr cur \<Rightarrow>
          (if mGrid g ! cur = 0 then Inr (- 1, g)
           else slide_loop g x y dire skip_merge cur 1))"

subsection \<open>only_merge and merge\<close>

text \<open>
  \<open>only_merge\<close> (lines 291-364). The inner loop over the cells of one line, in scan order. The state
  is \<open>skip_merge\<close>, \<open>new_score\<close>, \<open>have_motions\<close> and the grid; \<open>i64 r = slide(...)\<close>
  sign-extends the \<open>int\<close>.
\<close>

fun line_loop ::
  "Grid \<Rightarrow> DIRECTION \<Rightarrow> (int \<times> int) list \<Rightarrow> bool \<Rightarrow> i64 \<Rightarrow> bool
     \<Rightarrow> error + (bool \<times> i64 \<times> bool \<times> Grid)" where
  "line_loop g dire [] skip_merge new_score have_motions =
     Inr (skip_merge, new_score, have_motions, g)"
| "line_loop g dire ((x, y) # ps) skip_merge new_score have_motions =
     (case slide g x y dire skip_merge of
        Inl e \<Rightarrow> Inl e
      | Inr (r32, g') \<Rightarrow>
          (let r = (scast r32 :: i64);
               skip_merge' = (if 0 <s r then True else skip_merge);
               new_score' = (if 0 <s r then new_score + r else new_score);
               have_motions' = (if 0 \<le>s r then True else have_motions)
           in line_loop g' dire ps skip_merge' new_score' have_motions'))"

text \<open>The outer loop: \<open>skip_merge = false\<close> at the start of every line.\<close>

fun lines_loop ::
  "Grid \<Rightarrow> DIRECTION \<Rightarrow> (int \<times> int) list list \<Rightarrow> i64 \<Rightarrow> bool
     \<Rightarrow> error + (i64 \<times> bool \<times> Grid)" where
  "lines_loop g dire [] new_score have_motions = Inr (new_score, have_motions, g)"
| "lines_loop g dire (l # ls) new_score have_motions =
     (case line_loop g dire l False new_score have_motions of
        Inl e \<Rightarrow> Inl e
      | Inr (skip_merge, new_score', have_motions', g') \<Rightarrow>
          lines_loop g' dire ls new_score' have_motions')"

text \<open>The lines and their cells in the order of the four \<open>case\<close>s of the \<open>switch\<close>.\<close>

definition scan_order :: "Grid \<Rightarrow> DIRECTION \<Rightarrow> (int \<times> int) list list" where
  "scan_order g dire =
     (case dire of
        UP \<Rightarrow> map (\<lambda>x. map (\<lambda>y. (x, y)) (iter (mHeight g))) (iter (mWidth g))
      | DOWN \<Rightarrow>
          map (\<lambda>x. map (\<lambda>y_i. (x, mHeight g - 1 - y_i)) (iter (mHeight g))) (iter (mWidth g))
      | RIGHT \<Rightarrow>
          map (\<lambda>y. map (\<lambda>x_i. (mWidth g - 1 - x_i, y)) (iter (mWidth g))) (iter (mHeight g))
      | LEFT \<Rightarrow> map (\<lambda>y. map (\<lambda>x. (x, y)) (iter (mWidth g))) (iter (mHeight g)))"

text \<open>
  The model of \<open>only_merge\<close> returns the value returned, the flag written to
  \<open>*have_motions_out\<close>, and the grid. \<open>merge\<close> (lines 280-285) adds a positive value
  to the score.
\<close>

definition only_merge :: "Grid \<Rightarrow> DIRECTION \<Rightarrow> error + (i64 \<times> bool \<times> Grid)" where
  "only_merge g dire =
     (case lines_loop g dire (scan_order g dire) 0 False of
        Inl e \<Rightarrow> Inl e
      | Inr (new_score, have_motions, g') \<Rightarrow>
          Inr (if have_motions then new_score else - 1, have_motions, g'))"

definition merge :: "Grid \<Rightarrow> DIRECTION \<Rightarrow> error + (i64 \<times> bool \<times> Grid)" where
  "merge g dire =
     (case only_merge g dire of
        Inl e \<Rightarrow> Inl e
      | Inr (increase, have_motions, g') \<Rightarrow>
          Inr (increase, have_motions,
               if 0 <s increase then g'\<lparr>mScore := mScore g' + increase\<rparr> else g'))"

subsection \<open>generate and generate_randomly\<close>

text \<open>
  \<open>generate\<close> (lines 209-223) and \<open>generate_randomly\<close> (lines 225-240). The engine \<open>rand\<close> is process-wide state that every call \<open>dist(rand)\<close> of a
  distribution advances. The model takes the values that the successive calls return, in
  order, as a list and hands back the unused rest. \<open>false_1i4\<close> is
  \<open>uniform_int_distribution<int>(0, 3)\<close>.

  \<open>pos_dist\<close> is \<open>uniform_int_distribution<int>(0, mWidth * mHeight - 1)\<close>, a static
  local of \<open>generate\<close>: it is constructed once, at the first call of \<open>generate\<close> in the
  process, with the dimensions of the grid of that call, and every later call, on
  whatever grid, draws from it. \<open>pos_dist_init\<close> gives the bounds it is constructed
  with, and \<open>drawn_from\<close> says of a list of draws that a distribution with these
  bounds can return them.
\<close>

definition pos_dist_init :: "Grid \<Rightarrow> int \<times> int" where
  "pos_dist_init g = (0, mWidth g * mHeight g - 1)"

definition drawn_from :: "int \<times> int \<Rightarrow> int list \<Rightarrow> bool" where
  "drawn_from bounds rand = list_all (\<lambda>p. fst bounds \<le> p \<and> p \<le> snd bounds) rand"

text \<open>
  The \<open>while(true)\<close> of \<open>generate\<close> draws until it hits an empty cell. The list is its
  fuel: the result is \<open>None\<close> when the draws run out before an empty cell is hit, and
  when a draw lies outside the array (the raw access \<open>mGrid[...]\<close> has no defined
  result there).
\<close>

fun generate_loop :: "Grid \<Rightarrow> i64 \<Rightarrow> int list \<Rightarrow> (Grid \<times> int list) option" where
  "generate_loop g targetval [] = None"
| "generate_loop g targetval (p # rand) =
     (if p < 0 \<or> int (length (mGrid g)) \<le> p then None
      else if mGrid g ! nat p = 0
        then Some (g\<lparr>mGrid := (mGrid g)[nat p := targetval]\<rparr>, rand)
      else generate_loop g targetval rand)"

definition generate :: "Grid \<Rightarrow> i64 \<Rightarrow> int list \<Rightarrow> (bool \<times> Grid \<times> int list) option" where
  "generate g targetval rand =
     (if is_full g then Some (True, g, rand)
      else (case generate_loop g targetval rand of
              None \<Rightarrow> None
            | Some (g', rand') \<Rightarrow> Some (False, g', rand')))"

text \<open>\<open>!false_1i4(rand)\<close> holds when the draw is 0.\<close>

definition generate_randomly :: "Grid \<Rightarrow> int list \<Rightarrow> (bool \<times> Grid \<times> int list) option" where
  "generate_randomly g rand =
     (case rand of
        [] \<Rightarrow> None
      | f1 # rand1 \<Rightarrow>
          (if f1 = 0 then
             (case rand1 of
                [] \<Rightarrow> None
              | f2 # rand2 \<Rightarrow>
                  (if f2 = 0 then
                     (case rand2 of
                        [] \<Rightarrow> None
                      | f3 # rand3 \<Rightarrow>
                          (if f3 = 0 then generate g 16 rand3 else generate g 8 rand3))
                   else generate g 4 rand2))
           else generate g 2 rand1))"

text \<open>
  The cascade in the words of the specification: a flip is one of the four values of
  \<open>false_1i4\<close> and hits when it is 0; the first miss among three flips selects 2, 4
  or 8, and three hits select 16.
\<close>

definition spec_cascade :: "int \<Rightarrow> int \<Rightarrow> int \<Rightarrow> i64" where
  "spec_cascade f1 f2 f3 =
     (if f1 \<noteq> 0 then 2 else if f2 \<noteq> 0 then 4 else if f3 \<noteq> 0 then 8 else 16)"

definition all_flips :: "(int \<times> int \<times> int) list" where
  "all_flips = concat (map (\<lambda>f1. concat (map (\<lambda>f2. map (\<lambda>f3. (f1, f2, f3)) (iter 4)) (iter 4))) (iter 4))"

definition weight :: "i64 \<Rightarrow> nat" where
  "weight v = length (filter (\<lambda>(f1, f2, f3). spec_cascade f1 f2 f3 = v) all_flips)"

text \<open>The number of non-empty cells.\<close>

definition occupied :: "Grid \<Rightarrow> nat" where
  "occupied g = length (filter (\<lambda>c. c \<noteq> 0) (mGrid g))"

section \<open>Notions used in the statements and proofs\<close>

text \<open>The sum of the cells read as signed integers, and the sum of their magnitudes.\<close>

definition abs_sum :: "Grid \<Rightarrow> int" where
  "abs_sum g = (\<Sum>c\<leftarrow>mGrid g. \<bar>sint c\<bar>)"

definition cell_sum :: "Grid \<Rightarrow> int" where
  "cell_sum g = (\<Sum>c\<leftarrow>mGrid g. sint c)"

text \<open>
  What one call of \<open>slide\<close> can do to the grid: nothing (result \<open>-1\<close>), move the
  cell \<open>cur\<close> onto an empty cell \<open>target\<close> (result 0), or, when \<open>skip_merge\<close> is
  false, double an equal cell \<open>target\<close> and empty \<open>cur\<close> (result: the doubled value,
  cut to 32 bits).
\<close>

definition slide_effect :: "Grid \<Rightarrow> bool \<Rightarrow> i32 \<Rightarrow> Grid \<Rightarrow> bool" where
  "slide_effect g skip_merge r g' \<longleftrightarrow>
     (r = - 1 \<and> g' = g) \<or>
     (\<exists>cur target. cur < length (mGrid g) \<and> target < length (mGrid g) \<and> target \<noteq> cur \<and>
        mGrid g ! cur \<noteq> 0 \<and> mGrid g ! target = 0 \<and> r = 0 \<and>
        g' = g\<lparr>mGrid := (mGrid g)[target := mGrid g ! cur, cur := 0]\<rparr>) \<or>
     (\<exists>cur target. cur < length (mGrid g) \<and> target < length (mGrid g) \<and> target \<noteq> cur \<and>
        \<not> skip_merge \<and> mGrid g ! cur \<noteq> 0 \<and> mGrid g ! target = mGrid g ! cur \<and>
        r = ucast (mGrid g ! target * 2) \<and>
        g' = g\<lparr>mGrid := (mGrid g)[target := mGrid g ! target * 2, cur := 0]\<rparr>)"

text \<open>
  One line of the grid taken alone, as a grid of height 1, and a result computed on
  that line put back between the cells before it (\<open>A\<close>) and after it (\<open>B\<close>).
\<close>

definition row_grid :: "Grid \<Rightarrow> i64 list \<Rightarrow> Grid" where
  "row_grid g row = \<lparr>mWidth = mWidth g, mHeight = 1, mGrid = row, mScore = mScore g\<rparr>"

definition in_row ::
  "Grid \<Rightarrow> i64 list \<Rightarrow> i64 list \<Rightarrow> error + ('a \<times> Grid) \<Rightarrow> error + ('a \<times> Grid)" where
  "in_row g A B res =
     (case res of Inl e \<Rightarrow> Inl e | Inr (r, g1) \<Rightarrow> Inr (r, g\<lparr>mGrid := A @ mGrid g1 @ B\<rparr>))"

text \<open>
  The cell at \<open>(x, y)\<close>, and the lose condition in the words of the specification: two
  grid-adjacent cells, one below or to the right of the other, hold equal non-zero values.
\<close>

definition cell :: "Grid \<Rightarrow> int \<Rightarrow> int \<Rightarrow> i64" where
  "cell g x y = mGrid g ! nat (x + y * mWidth g)"

definition spec_equal_neighbours :: "Grid \<Rightarrow> bool" where
  "spec_equal_neighbours g =
     list_ex (\<lambda>(x, y). cell g x y \<noteq> 0 \<and>
        ((y + 1 < mHeight g \<and> cell g x y = cell g x (y + 1)) \<or>
         (x + 1 < mWidth g \<and> cell g x y = cell g (x + 1) y)))
       (is_fail_order g)"

section \<open>Properties of slide and of the loops\<close>

lemma new_Grid_well_formed:
  "0 \<le> w \<Longrightarrow> 0 \<le> h \<Longrightarrow> well_formed (new_Grid w h) \<and> (\<forall>c\<in>set (mGrid (new_Grid w h)). c = 0)"
  by (simp add: well_formed_def new_Grid_def reset_def)

subsection \<open>Cells inside the grid\<close>

text \<open>
  A cell inside a well-formed grid has its index inside the array, and the cell that
  \<open>slide\<close> looks at, \<open>coord \<ge> 1\<close> steps away from \<open>(x, y)\<close>, is another cell.
\<close>

lemma cell_index_less:
  assumes "well_formed g" "0 \<le> x" "x < mWidth g" "0 \<le> y" "y < mHeight g"
  shows "nat (x + y * mWidth g) < length (mGrid g)"
proof -
  have "y * mWidth g \<le> (mHeight g - 1) * mWidth g"
    using assms by (intro mult_right_mono) auto
  then have "x + y * mWidth g < mWidth g * mHeight g"
    using assms by (simp add: algebra_simps)
  then show ?thesis
    using assms by (simp add: well_formed_def nat_less_iff)
qed

lemma get_ref_less:
  "well_formed g \<Longrightarrow> get_ref g x y = Inr i \<Longrightarrow> i < length (mGrid g)"
  using cell_index_less [of g x y] by (auto simp: get_ref_def split: if_splits)

lemma get_ref_Inr_iff:
  "get_ref g x y = Inr i \<longleftrightarrow>
     0 \<le> x \<and> x < mWidth g \<and> 0 \<le> y \<and> y < mHeight g \<and> i = nat (x + y * mWidth g)"
  by (auto simp: get_ref_def)

lemma get_dire_less:
  "well_formed g \<Longrightarrow> get_dire g x y dire coord = Inr t \<Longrightarrow> t < length (mGrid g)"
  by (cases dire) (auto simp: get_dire_def dest: get_ref_less)

lemma get_dire_neq:
  assumes "get_ref g x y = Inr cur" "get_dire g x y dire coord = Inr t" "1 \<le> coord"
  shows "t \<noteq> cur"
proof -
  from assms(1) have r: "0 \<le> x" "x < mWidth g" "0 \<le> y" "y < mHeight g"
    and c: "cur = nat (x + y * mWidth g)"
    by (auto simp: get_ref_Inr_iff)
  have pos: "0 < coord * mWidth g" using r assms(3) by simp
  have nn: "0 \<le> y * mWidth g" using r by simp
  show ?thesis
  proof (cases dire)
    case UP
    with assms(2) have "0 \<le> y - coord" "t = nat (x + (y - coord) * mWidth g)"
      by (auto simp: get_dire_def get_ref_Inr_iff)
    moreover have "0 \<le> (y - coord) * mWidth g" using calculation r by simp
    moreover have "(y - coord) * mWidth g = y * mWidth g - coord * mWidth g"
      by (simp add: algebra_simps)
    ultimately show ?thesis using c pos r nn assms(3) by (simp add: nat_eq_iff)
  next
    case DOWN
    with assms(2) have "t = nat (x + (y + coord) * mWidth g)"
      by (auto simp: get_dire_def get_ref_Inr_iff)
    moreover have "(y + coord) * mWidth g = y * mWidth g + coord * mWidth g"
      by (simp add: algebra_simps)
    ultimately show ?thesis using c pos r nn assms(3) by (simp add: nat_eq_iff)
  next
    case RIGHT
    with assms(2) have "t = nat (x + coord + y * mWidth g)"
      by (auto simp: get_dire_def get_ref_Inr_iff)
    then show ?thesis using c r nn assms(3) by (simp add: nat_eq_iff)
  next
    case LEFT
    with assms(2) have "0 \<le> x - coord" "t = nat (x - coord + y * mWidth g)"
      by (auto simp: get_dire_def get_ref_Inr_iff)
    then show ?thesis using c r nn assms(3) by (simp add: nat_eq_iff)
  qed
qed

subsection \<open>One call of slide\<close>

text \<open>
  For \<open>(x, y)\<close> inside a well-formed grid \<open>slide\<close> returns, and what it does is one of
  the three effects of \<open>slide_effect\<close>. The invariant of its loop: the cells at distance
  1, ..., \<open>coord - 1\<close> are inside the grid and empty.
\<close>

lemma slide_catch_effect:
  assumes wf: "well_formed g" and cur: "get_ref g x y = Inr cur" and nz: "mGrid g ! cur \<noteq> 0"
    and c1: "1 \<le> coord"
    and prev: "1 < coord \<longrightarrow> (\<exists>t. get_dire g x y dire (coord - 1) = Inr t \<and> mGrid g ! t = 0)"
  shows "\<exists>r g'. slide_catch g x y dire cur coord = Inr (r, g') \<and> slide_effect g skip_merge r g'"
proof (cases "1 < coord")
  case False
  then show ?thesis by (simp add: slide_catch_def slide_effect_def)
next
  case True
  with prev obtain t where t: "get_dire g x y dire (coord - 1) = Inr t" "mGrid g ! t = 0"
    by blast
  have "t < length (mGrid g)" using wf t(1) by (rule get_dire_less)
  moreover have "cur < length (mGrid g)" using wf cur by (rule get_ref_less)
  moreover have "t \<noteq> cur" using cur t(1) True by (intro get_dire_neq [of g x y cur dire "coord - 1"]) auto
  ultimately show ?thesis
    using True t nz by (auto simp: slide_catch_def slide_effect_def Let_def)
qed

lemma slide_loop_effect:
  assumes "well_formed g" "get_ref g x y = Inr cur" "mGrid g ! cur \<noteq> 0" "1 \<le> coord"
    "1 < coord \<longrightarrow> (\<exists>t. get_dire g x y dire (coord - 1) = Inr t \<and> mGrid g ! t = 0)"
  shows "\<exists>r g'. slide_loop g x y dire skip_merge cur coord = Inr (r, g') \<and>
           slide_effect g skip_merge r g'"
  using assms
proof (induction g x y dire skip_merge cur coord rule: slide_loop.induct)
  case (1 g x y dire skip_merge cur coord)
  note catch = slide_catch_effect [OF "1.prems", of skip_merge]
  show ?case
  proof (cases "get_dire g x y dire coord")
    case (Inl e)
    then show ?thesis using catch by (subst slide_loop.simps) simp
  next
    case (Inr target)
    have tl: "target < length (mGrid g)" using "1.prems"(1) Inr by (rule get_dire_less)
    have cl: "cur < length (mGrid g)" using "1.prems"(1,2) by (rule get_ref_less)
    have ne: "target \<noteq> cur" using "1.prems"(2) Inr "1.prems"(4) by (rule get_dire_neq)
    show ?thesis
    proof (cases "mGrid g ! target = 0")
      case True
      have "\<exists>r g'. slide_loop g x y dire skip_merge cur (coord + 1) = Inr (r, g') \<and>
              slide_effect g skip_merge r g'"
        using Inr True "1.prems" by (intro "1.IH" [OF Inr]) auto
      then show ?thesis using Inr True by (subst slide_loop.simps) simp
    next
      case False
      show ?thesis
      proof (cases "\<not> skip_merge \<and> mGrid g ! target = mGrid g ! cur")
        case True
        then have "slide_loop g x y dire skip_merge cur coord =
            Inr (ucast (mGrid g ! target * 2),
                 g\<lparr>mGrid := (mGrid g)[target := mGrid g ! target * 2, cur := 0]\<rparr>)"
          using Inr False tl cl ne by (subst slide_loop.simps) (simp add: Let_def)
        moreover have "slide_effect g skip_merge (ucast (mGrid g ! target * 2))
            (g\<lparr>mGrid := (mGrid g)[target := mGrid g ! target * 2, cur := 0]\<rparr>)"
          unfolding slide_effect_def using True tl cl ne "1.prems"(3) by blast
        ultimately show ?thesis by blast
      next
        case F2: False
        then have "slide_loop g x y dire skip_merge cur coord = slide_catch g x y dire cur coord"
          using Inr False by (subst slide_loop.simps) auto
        then show ?thesis using catch by simp
      qed
    qed
  qed
qed

lemma slide_has_effect:
  assumes "well_formed g" "0 \<le> x" "x < mWidth g" "0 \<le> y" "y < mHeight g"
  shows "\<exists>r g'. slide g x y dire skip_merge = Inr (r, g') \<and> slide_effect g skip_merge r g'"
proof -
  have cur: "get_ref g x y = Inr (nat (x + y * mWidth g))"
    using assms by (simp add: get_ref_def)
  show ?thesis
  proof (cases "mGrid g ! nat (x + y * mWidth g) = 0")
    case True
    then show ?thesis using cur by (simp add: slide_def slide_effect_def)
  next
    case False
    then show ?thesis
      using slide_loop_effect [OF assms(1) cur False, of 1 dire skip_merge] cur
      by (simp add: slide_def)
  qed
qed

subsection \<open>The loops of only_merge\<close>

text \<open>
  A property of grids that every effect of \<open>slide\<close> preserves, and that holds only of
  well-formed grids of fixed dimensions, holds after the loops of \<open>only_merge\<close>; and
  the loops return.
\<close>

lemma slide_effect_well_formed:
  "slide_effect g s r g' \<Longrightarrow> well_formed g \<Longrightarrow>
     well_formed g' \<and> mWidth g' = mWidth g \<and> mHeight g' = mHeight g \<and> mScore g' = mScore g"
  by (auto simp: slide_effect_def well_formed_def)

lemma line_loop_inv:
  assumes step: "\<forall>g s r g'. P g \<longrightarrow> slide_effect g s r g' \<longrightarrow> P g'"
    and wfP: "\<forall>g. P g \<longrightarrow> well_formed g \<and> mWidth g = w \<and> mHeight g = h"
  shows "P g \<Longrightarrow> \<forall>(x, y)\<in>set ps. 0 \<le> x \<and> x < w \<and> 0 \<le> y \<and> y < h \<Longrightarrow>
    \<exists>sk' ns' hm' g'. line_loop g dire ps sk ns hm = Inr (sk', ns', hm', g') \<and> P g'"
proof (induction ps arbitrary: g sk ns hm)
  case Nil
  then show ?case by simp
next
  case (Cons p ps)
  obtain x y where p: "p = (x, y)" by (cases p)
  have rng: "0 \<le> x" "x < mWidth g" "0 \<le> y" "y < mHeight g"
    using Cons.prems wfP by (auto simp: p)
  have "well_formed g" using Cons.prems(1) wfP by blast
  from slide_has_effect [OF this rng, of dire sk]
  obtain r g1 where s: "slide g x y dire sk = Inr (r, g1)" "slide_effect g sk r g1"
    by blast
  have "P g1" using Cons.prems(1) s(2) step by blast
  moreover have "\<forall>(x, y)\<in>set ps. 0 \<le> x \<and> x < w \<and> 0 \<le> y \<and> y < h"
    using Cons.prems(2) by simp
  ultimately show ?case
    using Cons.IH [of g1] s(1) by (simp add: p Let_def)
qed

lemma lines_loop_inv:
  assumes step: "\<forall>g s r g'. P g \<longrightarrow> slide_effect g s r g' \<longrightarrow> P g'"
    and wfP: "\<forall>g. P g \<longrightarrow> well_formed g \<and> mWidth g = w \<and> mHeight g = h"
  shows "P g \<Longrightarrow> \<forall>l\<in>set ls. \<forall>(x, y)\<in>set l. 0 \<le> x \<and> x < w \<and> 0 \<le> y \<and> y < h \<Longrightarrow>
    \<exists>ns' hm' g'. lines_loop g dire ls ns hm = Inr (ns', hm', g') \<and> P g'"
proof (induction ls arbitrary: g ns hm)
  case Nil
  then show ?case by simp
next
  case (Cons l ls)
  have "\<forall>(x, y)\<in>set l. 0 \<le> x \<and> x < w \<and> 0 \<le> y \<and> y < h"
    using Cons.prems(2) by simp
  from line_loop_inv [where P = P and w = w and h = h and dire = dire and sk = False
      and ns = ns and hm = hm, OF step wfP Cons.prems(1) this]
  obtain sk' ns' hm' g1 where l: "line_loop g dire l False ns hm = Inr (sk', ns', hm', g1)" "P g1"
    by blast
  have "\<forall>l\<in>set ls. \<forall>(x, y)\<in>set l. 0 \<le> x \<and> x < w \<and> 0 \<le> y \<and> y < h"
    using Cons.prems(2) by simp
  from Cons.IH [OF l(2) this, of ns' hm'] show ?case
    using l(1) by simp
qed

lemma scan_order_in_range:
  "\<forall>l\<in>set (scan_order g dire). \<forall>(x, y)\<in>set l.
      0 \<le> x \<and> x < mWidth g \<and> 0 \<le> y \<and> y < mHeight g"
  by (cases dire) (auto simp: scan_order_def iter_def)

lemma only_merge_inv:
  assumes step: "\<forall>g s r g'. P g \<longrightarrow> slide_effect g s r g' \<longrightarrow> P g'"
    and wfP: "\<forall>g. P g \<longrightarrow> well_formed g \<and> mWidth g = mWidth g0 \<and> mHeight g = mHeight g0"
    and "P g0"
  shows "\<exists>inc hm g'. only_merge g0 dire = Inr (inc, hm, g') \<and> P g' \<and> (\<not> hm \<longrightarrow> inc = - 1)"
proof -
  from lines_loop_inv [where P = P and w = "mWidth g0" and h = "mHeight g0" and dire = dire
      and ns = 0 and hm = False, OF step wfP assms(3) scan_order_in_range]
  obtain ns hm g' where "lines_loop g0 dire (scan_order g0 dire) 0 False = Inr (ns, hm, g')" "P g'"
    by blast
  then show ?thesis by (simp add: only_merge_def)
qed

subsection \<open>Sums of cells\<close>

text \<open>
  Moving a value onto an empty cell and replacing \<open>v, v\<close> by \<open>2v, 0\<close> keep the sum of
  the cells. Read as signed integers the cells keep their sum when doubling does not
  overflow.
\<close>

lemma sum_list_update_group:
  fixes xs :: "'a::ab_group_add list"
  shows "i < length xs \<Longrightarrow> sum_list (xs[i := v]) = sum_list xs - xs ! i + v"
  by (induction xs arbitrary: i) (auto split: nat.splits)

lemma slide_effect_sum:
  assumes "slide_effect g s r g'"
  shows "sum_list (mGrid g') = sum_list (mGrid g)"
  using assms unfolding slide_effect_def
  by (auto simp: sum_list_update_group)

lemma two_cells_le_sum:
  fixes xs :: "int list"
  assumes "i < length xs" "j < length xs" "i \<noteq> j" "\<forall>v\<in>set xs. 0 \<le> v"
  shows "xs ! i + xs ! j \<le> sum_list xs"
proof -
  have "\<forall>v\<in>set (xs[i := 0, j := 0]). 0 \<le> v"
    using assms(4) by (metis insertE order_refl set_update_subset_insert subsetD)
  then have "0 \<le> sum_list (xs[i := 0, j := 0])"
    by (intro sum_list_nonneg) auto
  then show ?thesis
    using assms(1-3) by (simp add: sum_list_update_group)
qed

lemma sint_double:
  fixes c :: i64
  assumes "2 * \<bar>sint c\<bar> < 2 ^ 63"
  shows "sint (c * 2) = 2 * sint c"
proof -
  have "sint (c * 2) = signed_take_bit 63 (sint c * 2)"
    by (simp add: sint_word_ariths)
  also have "\<dots> = sint c * 2"
    using assms by (intro signed_take_bit_int_eq_self) auto
  finally show ?thesis by simp
qed

lemma slide_effect_int_sum:
  assumes "slide_effect g s r g'" "abs_sum g < 2 ^ 63"
  shows "abs_sum g' = abs_sum g \<and> cell_sum g' = cell_sum g"
proof -
  consider (noop) "g' = g"
    | (move) cur t where "cur < length (mGrid g)" "t < length (mGrid g)" "t \<noteq> cur"
        "mGrid g ! t = 0" "g' = g\<lparr>mGrid := (mGrid g)[t := mGrid g ! cur, cur := 0]\<rparr>"
    | (merge) cur t where "cur < length (mGrid g)" "t < length (mGrid g)" "t \<noteq> cur"
        "mGrid g ! t = mGrid g ! cur"
        "g' = g\<lparr>mGrid := (mGrid g)[t := mGrid g ! t * 2, cur := 0]\<rparr>"
    using assms(1) unfolding slide_effect_def by blast
  then show ?thesis
  proof cases
    case noop
    then show ?thesis by simp
  next
    case move
    then show ?thesis
      by (simp add: abs_sum_def cell_sum_def map_update sum_list_update_group)
  next
    case merge
    let ?c = "mGrid g ! cur"
    have "(map (\<lambda>c. \<bar>sint c\<bar>) (mGrid g)) ! t + (map (\<lambda>c. \<bar>sint c\<bar>) (mGrid g)) ! cur
            \<le> sum_list (map (\<lambda>c. \<bar>sint c\<bar>) (mGrid g))"
      using merge(1-3) by (intro two_cells_le_sum) auto
    then have "2 * \<bar>sint ?c\<bar> < 2 ^ 63"
      using merge(1,2,4) assms(2) by (simp add: abs_sum_def)
    then have d: "sint (?c * 2) = 2 * sint ?c" by (rule sint_double)
    show ?thesis
      using merge d
      by (simp add: abs_sum_def cell_sum_def map_update sum_list_update_group)
  qed
qed

lemma only_merge_keeps_score:
  assumes "well_formed g"
  shows "\<exists>inc hm g'. only_merge g dire = Inr (inc, hm, g') \<and> mScore g' = mScore g \<and>
           (\<not> hm \<longrightarrow> inc = - 1)"
proof -
  define P where "P g' \<longleftrightarrow> well_formed g' \<and> mWidth g' = mWidth g \<and> mHeight g' = mHeight g \<and>
      mScore g' = mScore g" for g'
  have step: "\<forall>g1 s r g2. P g1 \<longrightarrow> slide_effect g1 s r g2 \<longrightarrow> P g2"
    unfolding P_def using slide_effect_well_formed by metis
  have wfP: "\<forall>g'. P g' \<longrightarrow> well_formed g' \<and> mWidth g' = mWidth g \<and> mHeight g' = mHeight g"
    by (simp add: P_def)
  have "P g" using assms by (simp add: P_def)
  from only_merge_inv [OF step wfP this, of dire] show ?thesis
    unfolding P_def by blast
qed

lemma sint_add_no_overflow:
  fixes a b :: i64
  assumes "0 <s b" "sint a + sint b < 2 ^ 63"
  shows "sint (a + b) = sint a + sint b"
proof -
  have "0 < sint b" using assms(1) by (simp add: word_sless_alt)
  moreover have "- (2 ^ 63) \<le> sint a" using sint_ge [of a] by simp
  ultimately have "- (2 ^ 63) \<le> sint a + sint b" by linarith
  then have "signed_take_bit 63 (sint a + sint b) = sint a + sint b"
    using assms(2) by (intro signed_take_bit_int_eq_self) auto
  then show ?thesis by (simp add: sint_word_ariths)
qed


subsection \<open>A line taken alone\<close>

text \<open>
  For LEFT and RIGHT, \<open>slide\<close> at \<open>(x, k)\<close> reads and writes cells of line \<open>k\<close> only: it
  does to that line what it does to the line taken alone as a grid of height 1.
\<close>

lemma row_index:
  "0 \<le> x \<Longrightarrow> 0 \<le> w \<Longrightarrow> nat (x + int k * w) = k * nat w + nat x"
  by (simp add: nat_add_distrib nat_mult_distrib)

lemma get_ref_row:
  assumes "length A = k * nat (mWidth g)" "int k < mHeight g"
  shows "get_ref g x (int k) =
     (case get_ref (row_grid g row) x 0 of Inl e \<Rightarrow> Inl e | Inr j \<Rightarrow> Inr (length A + j))"
  using assms by (auto simp: get_ref_def row_grid_def row_index)

lemma get_ref_row_less:
  "length row = nat (mWidth g) \<Longrightarrow> get_ref (row_grid g row) x 0 = Inr j \<Longrightarrow> j < length row"
  by (auto simp: get_ref_def row_grid_def split: if_splits)

lemma get_dire_row:
  assumes "length A = k * nat (mWidth g)" "int k < mHeight g" "dire = LEFT \<or> dire = RIGHT"
  shows "get_dire g x (int k) dire c =
     (case get_dire (row_grid g row) x 0 dire c of Inl e \<Rightarrow> Inl e | Inr j \<Rightarrow> Inr (length A + j))"
  using assms(3) get_ref_row [OF assms(1,2)] by (auto simp: get_dire_def)

lemma get_dire_row_less:
  "length row = nat (mWidth g) \<Longrightarrow> dire = LEFT \<or> dire = RIGHT \<Longrightarrow>
     get_dire (row_grid g row) x 0 dire c = Inr j \<Longrightarrow> j < length row"
  using get_ref_row_less [of row g] by (elim disjE) (simp_all add: get_dire_def)

lemma nth_in_row [simp]: "j < length row \<Longrightarrow> (A @ row @ B) ! (length A + j) = row ! j"
  by (simp add: nth_append)

lemma nth_in_row' [simp]: "j < length row \<Longrightarrow> (row @ B) ! j = row ! j"
  by (simp add: nth_append)

lemma update_in_row:
  "j < length row \<Longrightarrow> (A @ row @ B)[length A + j := v] = A @ row[j := v] @ B"
  by (simp add: list_update_append)

lemma slide_catch_row:
  assumes "mGrid g = A @ row @ B" "length A = k * nat (mWidth g)" "length row = nat (mWidth g)"
    "int k < mHeight g" "dire = LEFT \<or> dire = RIGHT" "cur < length row"
  shows "slide_catch g x (int k) dire (length A + cur) c =
     in_row g A B (slide_catch (row_grid g row) x 0 dire cur c)"
proof (cases "1 < c")
  case False
  have "g\<lparr>mGrid := A @ row @ B\<rparr> = g"
    unfolding assms(1) [symmetric] by simp
  then show ?thesis
    using False by (simp add: slide_catch_def in_row_def row_grid_def)
next
  case True
  note gd = get_dire_row [OF assms(2,4,5), of x "c - 1" row]
  show ?thesis
  proof (cases "get_dire (row_grid g row) x 0 dire (c - 1)")
    case (Inl e)
    then show ?thesis
      using gd True by (simp add: slide_catch_def in_row_def)
  next
    case (Inr j)
    then have "j < length row" using assms(3,5) get_dire_row_less by blast
    then show ?thesis
      using gd Inr assms(6) True
      by (simp add: slide_catch_def in_row_def assms(1) update_in_row Let_def)
        (simp add: row_grid_def)
  qed
qed

lemma slide_loop_row:
  assumes "mGrid g = A @ row @ B" "length A = k * nat (mWidth g)" "length row = nat (mWidth g)"
    "int k < mHeight g" "dire = LEFT \<or> dire = RIGHT" "cur < length row" "y = int k"
    "gcur = length A + cur"
  shows "slide_loop g x y dire sk gcur c =
     in_row g A B (slide_loop (row_grid g row) x 0 dire sk cur c)"
  using assms
proof (induction g x y dire sk gcur c rule: slide_loop.induct)
  case (1 g x y dire sk gcur c)
  note gd = get_dire_row [OF "1.prems"(2,4,5), of x c row]
  note sc = slide_catch_row [OF "1.prems"(1-6), of x c]
  show ?case
  proof (cases "get_dire (row_grid g row) x 0 dire c")
    case (Inl e)
    then show ?thesis
      using gd sc "1.prems"(7,8)
      by (subst slide_loop.simps, subst (2) slide_loop.simps) simp
  next
    case (Inr j)
    then have jl: "j < length row" using "1.prems"(3,5) get_dire_row_less by blast
    have gT: "get_dire g x y dire c = Inr (length A + j)"
      using gd Inr "1.prems"(7) by simp
    have cellT: "mGrid g ! (length A + j) = row ! j"
      using jl by (simp add: "1.prems"(1) nth_in_row)
    have cellC: "mGrid g ! (length A + cur) = row ! cur"
      using "1.prems"(6) by (simp add: "1.prems"(1) nth_in_row)
    show ?thesis
    proof (cases "row ! j = 0")
      case True
      have "slide_loop g x y dire sk gcur (c + 1) =
          in_row g A B (slide_loop (row_grid g row) x 0 dire sk cur (c + 1))"
        using gT cellT True "1.prems" by (intro "1.IH") auto
      then show ?thesis
        using gT Inr cellT True
        by (subst slide_loop.simps, subst (2) slide_loop.simps) (simp add: row_grid_def)
    next
      case False
      show ?thesis
      proof (cases "\<not> sk \<and> row ! j = row ! cur")
        case True
        have "(A @ row @ B)[length A + j := row ! j * 2, length A + cur := 0] =
            A @ row[j := row ! j * 2, cur := 0] @ B"
          using jl "1.prems"(6) by (simp add: update_in_row)
        moreover have "(A @ row[j := row ! j * 2, cur := 0] @ B) ! (length A + j) =
            row[j := row ! j * 2, cur := 0] ! j"
          using jl by (simp add: nth_in_row)
        ultimately show ?thesis
          using gT Inr cellT cellC False True "1.prems"(1,7,8)
          by (subst slide_loop.simps, subst (2) slide_loop.simps)
            (simp add: row_grid_def in_row_def Let_def)
      next
        case F2: False
        then show ?thesis
          using gT Inr cellT cellC False sc "1.prems"(7,8)
          by (subst slide_loop.simps, subst (2) slide_loop.simps) (auto simp: row_grid_def)
      qed
    qed
  qed
qed

lemma slide_row:
  assumes "mGrid g = A @ row @ B" "length A = k * nat (mWidth g)" "length row = nat (mWidth g)"
    "int k < mHeight g" "dire = LEFT \<or> dire = RIGHT"
  shows "slide g x (int k) dire sk = in_row g A B (slide (row_grid g row) x 0 dire sk)"
proof (cases "get_ref (row_grid g row) x 0")
  case (Inl e)
  then show ?thesis
    using get_ref_row [OF assms(2,4), of x row] by (simp add: slide_def in_row_def)
next
  case (Inr cur)
  then have cl: "cur < length row" using assms(3) get_ref_row_less by blast
  have g: "get_ref g x (int k) = Inr (length A + cur)"
    using get_ref_row [OF assms(2,4), of x row] Inr by simp
  have cell: "mGrid g ! (length A + cur) = row ! cur"
    using cl by (simp add: assms(1) nth_in_row)
  show ?thesis
  proof (cases "row ! cur = 0")
    case True
    then show ?thesis
      using g Inr cell by (simp add: slide_def in_row_def row_grid_def assms(1))
  next
    case False
    then show ?thesis
      using g Inr cell slide_loop_row [OF assms cl refl refl, of x sk 1]
      by (simp add: slide_def) (simp add: row_grid_def)
  qed
qed

lemma slide_preserves:
  assumes "slide g x y dire sk = Inr (r, g')" "well_formed g"
  shows "well_formed g' \<and> mWidth g' = mWidth g \<and> mHeight g' = mHeight g \<and>
         mScore g' = mScore g"
proof -
  from assms(1) have "0 \<le> x \<and> x < mWidth g \<and> 0 \<le> y \<and> y < mHeight g"
    by (auto simp: slide_def get_ref_def split: if_splits)
  with slide_has_effect [OF assms(2), of x y dire sk] assms(1)
  have "slide_effect g sk r g'" by auto
  then show ?thesis using assms(2) by (rule slide_effect_well_formed)
qed

lemma slide_row_grid:
  assumes "slide (row_grid g row) x 0 dire sk = Inr (r, g1)" "length row = nat (mWidth g)"
  shows "g1 = row_grid g (mGrid g1) \<and> length (mGrid g1) = nat (mWidth g)"
proof -
  from assms(1) have "0 \<le> mWidth g"
    by (auto simp: slide_def get_ref_def row_grid_def split: if_splits)
  then have wf: "well_formed (row_grid g row)"
    using assms(2) by (simp add: well_formed_def row_grid_def)
  from slide_preserves [OF assms(1) wf] show ?thesis
    by (cases g1) (auto simp: row_grid_def well_formed_def)
qed

lemma line_loop_row:
  assumes "dire = LEFT \<or> dire = RIGHT"
  shows "mGrid g = A @ row @ B \<Longrightarrow> length row = nat (mWidth g) \<Longrightarrow>
     length A = k * nat (mWidth g) \<Longrightarrow> int k < mHeight g \<Longrightarrow>
     line_loop g dire (map (\<lambda>x. (x, int k)) xs) sk ns hm =
       (case line_loop (row_grid g row) dire (map (\<lambda>x. (x, 0)) xs) sk ns hm of
          Inl e \<Rightarrow> Inl e
        | Inr (sk', ns', hm', g1) \<Rightarrow> Inr (sk', ns', hm', g\<lparr>mGrid := A @ mGrid g1 @ B\<rparr>))"
proof (induction xs arbitrary: g row sk ns hm)
  case Nil
  have "g\<lparr>mGrid := A @ row @ B\<rparr> = g"
    unfolding Nil.prems(1) [symmetric] by simp
  then show ?case by (simp add: row_grid_def)
next
  case (Cons x xs)
  note sr = slide_row [OF Cons.prems(1,3,2,4) assms, of x sk]
  show ?case
  proof (cases "slide (row_grid g row) x 0 dire sk")
    case (Inl e)
    then show ?thesis using sr by (simp add: in_row_def)
  next
    case (Inr p)
    obtain r g1 where p: "p = (r, g1)" by (cases p)
    let ?g' = "g\<lparr>mGrid := A @ mGrid g1 @ B\<rparr>"
    from slide_row_grid [OF Inr [unfolded p] Cons.prems(2)]
    have g1: "g1 = row_grid g (mGrid g1)" and len: "length (mGrid g1) = nat (mWidth g)"
      by auto
    have s: "slide g x (int k) dire sk = Inr (r, ?g')"
      using sr Inr p by (simp add: in_row_def)
    have rg: "row_grid ?g' (mGrid g1) = g1"
      using g1 by (simp add: row_grid_def)
    have IH: "line_loop ?g' dire (map (\<lambda>x. (x, int k)) xs) sk' ns' hm' =
       (case line_loop g1 dire (map (\<lambda>x. (x, 0)) xs) sk' ns' hm' of
          Inl e \<Rightarrow> Inl e
        | Inr (sk', ns', hm', g2) \<Rightarrow> Inr (sk', ns', hm', g\<lparr>mGrid := A @ mGrid g2 @ B\<rparr>))"
      for sk' ns' hm'
      using Cons.IH [of ?g' "mGrid g1" sk' ns' hm'] Cons.prems(3,4) len rg
      by (simp split: sum.splits)
    show ?thesis
      using s Inr p IH by (simp add: Let_def)
  qed
qed

subsection \<open>Empty lines\<close>

text \<open>
  The sweep of a line whose cells are all empty changes nothing.
\<close>

lemma line_loop_zero:
  "\<forall>(x, y)\<in>set ps. 0 \<le> x \<and> x < mWidth g \<and> 0 \<le> y \<and> y < mHeight g \<and>
       mGrid g ! nat (x + y * mWidth g) = 0 \<Longrightarrow>
     line_loop g dire ps sk ns hm = Inr (sk, ns, hm, g)"
  by (induction ps) (auto simp: slide_def get_ref_def word_sless_alt word_sle_eq)

lemma lines_loop_zero:
  "\<forall>l\<in>set ls. \<forall>(x, y)\<in>set l. 0 \<le> x \<and> x < mWidth g \<and> 0 \<le> y \<and> y < mHeight g \<and>
       mGrid g ! nat (x + y * mWidth g) = 0 \<Longrightarrow>
     lines_loop g dire ls ns hm = Inr (ns, hm, g)"
  by (induction ls) (auto simp: line_loop_zero)

lemma lines_loop_append:
  "lines_loop g dire (ls1 @ ls2) ns hm =
     (case lines_loop g dire ls1 ns hm of
        Inl e \<Rightarrow> Inl e
      | Inr (ns', hm', g') \<Rightarrow> lines_loop g' dire ls2 ns' hm')"
  by (induction ls1 arbitrary: g ns hm) (auto split: sum.splits)


subsection \<open>One line between empty lines\<close>

text \<open>
  \<open>only_merge\<close> LEFT on a grid that is empty outside one line does to that line what
  the sweep does to the line taken alone.
\<close>

lemma outside_row:
  fixes row :: "i64 list"
  assumes "length row = n" "y \<noteq> k" "x < n" "y < k + 1 + m"
  shows "(replicate (k * n) 0 @ row @ replicate (m * n) 0) ! (y * n + x) = 0"
proof (cases "y < k")
  case True
  then have "(y + 1) * n \<le> k * n" by (intro mult_le_mono1) simp
  then have "y * n + x < k * n" using assms(3) by simp
  then show ?thesis by (simp add: nth_append)
next
  case False
  then have "(k + 1) * n \<le> y * n" using assms(2) by (intro mult_le_mono1) simp
  moreover have "(y + 1) * n \<le> (k + 1 + m) * n" using assms(4) by (intro mult_le_mono1) simp
  ultimately have "k * n + n \<le> y * n + x" "y * n + x < k * n + n + m * n"
    using assms(3) by (simp_all add: add_mult_distrib)
  then have "\<not> y * n + x < k * n" "\<not> y * n + x - k * n < n" "y * n + x - k * n - n < m * n"
    by linarith+
  then show ?thesis using assms(1) by (simp add: nth_append)
qed

lemma line_loop_well_formed:
  assumes "line_loop g dire ps sk ns hm = Inr (sk', ns', hm', g')" "well_formed g"
    "\<forall>(x, y)\<in>set ps. 0 \<le> x \<and> x < mWidth g \<and> 0 \<le> y \<and> y < mHeight g"
  shows "well_formed g' \<and> mWidth g' = mWidth g \<and> mHeight g' = mHeight g \<and> mScore g' = mScore g"
proof -
  define P where "P g' \<longleftrightarrow> well_formed g' \<and> mWidth g' = mWidth g \<and> mHeight g' = mHeight g \<and>
      mScore g' = mScore g" for g'
  have step: "\<forall>g1 s r g2. P g1 \<longrightarrow> slide_effect g1 s r g2 \<longrightarrow> P g2"
    unfolding P_def using slide_effect_well_formed by metis
  have wfP: "\<forall>g'. P g' \<longrightarrow> well_formed g' \<and> mWidth g' = mWidth g \<and> mHeight g' = mHeight g"
    by (simp add: P_def)
  have "P g" using assms(2) by (simp add: P_def)
  from line_loop_inv [OF step wfP this assms(3), of dire sk ns hm] assms(1)
  show ?thesis by (auto simp: P_def)
qed

lemma only_merge_single_row:
  fixes n k m :: nat and row :: "i64 list" and s :: i64
  assumes len: "length row = n"
    and line: "line_loop \<lparr>mWidth = int n, mHeight = 1, mGrid = row, mScore = s\<rparr> LEFT
        (map (\<lambda>x. (x, 0)) (iter (int n))) False 0 False = Inr (sk, ns, hm, g1)"
  shows "only_merge
      \<lparr>mWidth = int n, mHeight = int (k + 1 + m),
       mGrid = replicate (k * n) 0 @ row @ replicate (m * n) 0, mScore = s\<rparr> LEFT =
    Inr (if hm then ns else - 1, hm,
      \<lparr>mWidth = int n, mHeight = int (k + 1 + m),
       mGrid = replicate (k * n) 0 @ mGrid g1 @ replicate (m * n) 0, mScore = s\<rparr>)"
proof -
  let ?A = "replicate (k * n) (0::i64)" and ?B = "replicate (m * n) (0::i64)"
  let ?g = "\<lparr>mWidth = int n, mHeight = int (k + 1 + m), mGrid = ?A @ row @ ?B, mScore = s\<rparr>"
  let ?g' = "\<lparr>mWidth = int n, mHeight = int (k + 1 + m), mGrid = ?A @ mGrid g1 @ ?B, mScore = s\<rparr>"
  let ?line = "\<lambda>y. map (\<lambda>x. (x, y)) (iter (int n))"
  have rg: "row_grid ?g row = \<lparr>mWidth = int n, mHeight = 1, mGrid = row, mScore = s\<rparr>"
    by (simp add: row_grid_def)
  have wfr: "well_formed \<lparr>mWidth = int n, mHeight = 1, mGrid = row, mScore = s\<rparr>"
    using len by (simp add: well_formed_def)
  have "\<forall>(x, y)\<in>set (map (\<lambda>x. (x, 0)) (iter (int n))). 0 \<le> x \<and>
      x < mWidth \<lparr>mWidth = int n, mHeight = 1, mGrid = row, mScore = s\<rparr> \<and> 0 \<le> y \<and>
      y < mHeight \<lparr>mWidth = int n, mHeight = 1, mGrid = row, mScore = s\<rparr>"
    by (auto simp: iter_def)
  from line_loop_well_formed [OF line wfr this]
  have len1: "length (mGrid g1) = n" by (auto simp: well_formed_def)
  have up: "[0..<k + 1 + m] = [0..<k] @ k # [Suc k..<k + 1 + m]"
    by (metis add.assoc add.left_neutral le_add1 less_add_one trans_less_add1 upt_add_eq_append upt_conv_Cons)
  have it: "iter (int (k + 1 + m)) = map int [0..<k] @ int k # map int [Suc k..<k + 1 + m]"
    by (simp only: iter_def nat_int up map_append list.map)
  have split: "scan_order ?g LEFT =
      map ?line (map int [0..<k]) @ [?line (int k)] @ map ?line (map int [Suc k..<k + 1 + m])"
    by (simp only: scan_order_def DIRECTION.case Grid.select_convs it map_append list.map
        append_Cons append_Nil)
  have idx: "nat (int x + int y * int n) = y * n + x" for x y
    by (simp add: nat_add_distrib nat_mult_distrib)
  have before: "lines_loop ?g LEFT (map ?line (map int [0..<k])) 0 False = Inr (0, False, ?g)"
    by (rule lines_loop_zero) (auto simp: iter_def idx outside_row [OF len])
  have row: "line_loop ?g LEFT (?line (int k)) False 0 False = Inr (sk, ns, hm, ?g')"
    using line_loop_row [where g = ?g and A = ?A and B = ?B and row = row and k = k
        and dire = LEFT and xs = "iter (int n)" and sk = False and ns = 0 and hm = False]
      len line rg
    by simp
  have after: "lines_loop ?g' LEFT (map ?line (map int [Suc k..<k + 1 + m])) ns hm =
      Inr (ns, hm, ?g')"
    by (rule lines_loop_zero) (auto simp: iter_def idx outside_row [OF len1])
  have "lines_loop ?g LEFT (scan_order ?g LEFT) 0 False = Inr (ns, hm, ?g')"
    by (simp only: split lines_loop_append before row after sum.case prod.case append_Cons
        append_Nil lines_loop.simps)
  then show ?thesis
    unfolding only_merge_def by (simp only: sum.case prod.case)
qed


subsection \<open>After a merge in a line\<close>

text \<open>
  With \<open>skip_merge\<close> set, \<open>slide\<close> moves or does nothing.
\<close>

lemma slide_effect_skip:
  assumes "slide_effect g True r g'"
  shows "(r = 0 \<or> r = - 1) \<and> mset (mGrid g') = mset (mGrid g)"
proof -
  consider (noop) "r = - 1" "g' = g"
    | (move) cur t where "cur < length (mGrid g)" "t < length (mGrid g)"
        "mGrid g ! t = 0" "r = 0" "g' = g\<lparr>mGrid := (mGrid g)[t := mGrid g ! cur, cur := 0]\<rparr>"
    using assms unfolding slide_effect_def by blast
  then show ?thesis
  proof cases
    case noop
    then show ?thesis by simp
  next
    case move
    have "mset ((mGrid g)[t := mGrid g ! cur, cur := mGrid g ! t]) = mset (mGrid g)"
      using move(1,2) by (rule mset_swap)
    then show ?thesis using move by simp
  qed
qed

lemma line_loop_skip:
  "well_formed g \<Longrightarrow>
   \<forall>(x, y)\<in>set ps. 0 \<le> x \<and> x < mWidth g \<and> 0 \<le> y \<and> y < mHeight g \<Longrightarrow>
   \<exists>hm' g'. line_loop g dire ps True ns hm = Inr (True, ns, hm', g') \<and>
      mset (mGrid g') = mset (mGrid g)"
proof (induction ps arbitrary: g hm)
  case Nil
  then show ?case by simp
next
  case (Cons p ps)
  obtain x y where p: "p = (x, y)" by (cases p)
  have rng: "0 \<le> x" "x < mWidth g" "0 \<le> y" "y < mHeight g"
    using Cons.prems(2) by (auto simp: p)
  from slide_has_effect [OF Cons.prems(1) rng, of dire True]
  obtain r g1 where s: "slide g x y dire True = Inr (r, g1)" "slide_effect g True r g1"
    by blast
  from slide_effect_skip [OF s(2)]
  have r: "r = 0 \<or> r = - 1" and ms: "mset (mGrid g1) = mset (mGrid g)" by auto
  from slide_effect_well_formed [OF s(2) Cons.prems(1)]
  have wf1: "well_formed g1" and dims: "mWidth g1 = mWidth g" "mHeight g1 = mHeight g" by auto
  have "\<forall>(x, y)\<in>set ps. 0 \<le> x \<and> x < mWidth g1 \<and> 0 \<le> y \<and> y < mHeight g1"
    using Cons.prems(2) dims by simp
  from Cons.IH [OF wf1 this] ms
  have IH: "\<exists>hm' g'. line_loop g1 dire ps True ns hm1 = Inr (True, ns, hm', g') \<and>
      mset (mGrid g') = mset (mGrid g)" for hm1
    by simp
  from r show ?case
  proof
    assume "r = 0"
    then show ?thesis using s(1) IH [of True] by (simp add: p word_sless_alt word_sle_eq)
  next
    assume "r = - 1"
    then show ?thesis using s(1) IH [of hm] by (simp add: p word_sless_alt word_sle_eq)
  qed
qed

subsection \<open>The loop of generate\<close>

text \<open>
  When the draws lie in the array and one of them hits an empty cell, the loop stores the
  value in an empty cell.
\<close>

lemma occupied_update:
  fixes xs :: "i64 list"
  shows "i < length xs \<Longrightarrow> xs ! i = 0 \<Longrightarrow> v \<noteq> 0 \<Longrightarrow>
    length (filter (\<lambda>c. c \<noteq> 0) (xs[i := v])) = length (filter (\<lambda>c. c \<noteq> 0) xs) + 1"
  by (induction xs arbitrary: i) (auto split: nat.splits)

lemma generate_loop_hits:
  "\<forall>p\<in>set rand. 0 \<le> p \<and> p < int (length (mGrid g)) \<Longrightarrow>
   \<exists>p\<in>set rand. mGrid g ! nat p = 0 \<Longrightarrow>
   \<exists>i rand'. i < length (mGrid g) \<and> mGrid g ! i = 0 \<and>
      generate_loop g targetval rand = Some (g\<lparr>mGrid := (mGrid g)[i := targetval]\<rparr>, rand')"
proof (induction rand)
  case Nil
  then show ?case by simp
next
  case (Cons p rand)
  show ?case
  proof (cases "mGrid g ! nat p = 0")
    case True
    moreover have "nat p < length (mGrid g)" using Cons.prems(1) by auto
    ultimately show ?thesis using Cons.prems(1) by auto
  next
    case False
    then show ?thesis using Cons by auto
  qed
qed

text \<open>
  Draws from a \<open>pos_dist\<close> constructed for a grid with no more cells lie in the array.
  Draws from a \<open>pos_dist\<close> constructed for a grid of one cell are all 0: on the board
  \<open>[2, 0]\<close> no number of them hits the empty cell.
\<close>

lemma drawn_from_in_array:
  assumes "well_formed g" "mWidth g0 * mHeight g0 \<le> mWidth g * mHeight g"
    "drawn_from (pos_dist_init g0) rand"
  shows "\<forall>p\<in>set rand. 0 \<le> p \<and> p < int (length (mGrid g))"
  using assms by (auto simp: drawn_from_def pos_dist_init_def well_formed_def list_all_iff)

lemma drawn_from_zero: "drawn_from (0, 0) rand = (rand = replicate (length rand) 0)"
  by (induction rand) (auto simp: drawn_from_def)

lemma generate_loop_stale:
  "generate_loop \<lparr>mWidth = 2, mHeight = 1, mGrid = [2, 0], mScore = s\<rparr> targetval
     (replicate n 0) = None"
  by (induction n) auto

lemma generate_stale:
  "generate \<lparr>mWidth = 2, mHeight = 1, mGrid = [2, 0], mScore = s\<rparr> targetval
     (replicate n 0) = None"
proof -
  have "\<not> is_full \<lparr>mWidth = 2, mHeight = 1, mGrid = [2, 0], mScore = s\<rparr>"
    by (simp add: is_full_def upt_rec)
  then show ?thesis by (simp add: generate_def generate_loop_stale)
qed

subsection \<open>The int returned by slide\<close>

text \<open>
  An \<open>i64\<close> within the range of \<open>int\<close> survives the conversion to \<open>int\<close> and back.
\<close>

lemma int_round_trip:
  fixes w :: i64
  assumes "- (2 ^ 31) \<le> sint w" "sint w < 2 ^ 31"
  shows "(scast (ucast w :: i32) :: i64) = w"
proof (rule signed_word_eqI [where 'a = int])
  have a: "sint (ucast w :: i32) = signed_take_bit 31 (uint w)"
    by (simp add: signed_ucast_eq)
  have "signed_take_bit 31 (uint w) = signed_take_bit 31 (signed_take_bit 63 (uint w))"
    by (simp add: signed_take_bit_signed_take_bit)
  also have "\<dots> = signed_take_bit 31 (sint w)"
    by (simp add: sint_uint)
  also have "\<dots> = sint w"
    using assms by (intro signed_take_bit_int_eq_self) auto
  finally have b: "sint (ucast w :: i32) = sint w"
    using a by simp
  have "sint (scast (ucast w :: i32) :: i64) = signed_take_bit 63 (sint (ucast w :: i32))"
    by (simp add: signed_scast_eq)
  also have "\<dots> = sint w"
    using b assms by (simp add: signed_take_bit_int_eq_self)
  finally show "sint (scast (ucast w :: i32) :: i64) = sint w" .
qed

lemma line_vv00:
  fixes v :: i64
  assumes "0 < sint v" "sint v < 2 ^ 30"
  shows "line_loop \<lparr>mWidth = int 4, mHeight = 1, mGrid = [v, v, 0, 0], mScore = s\<rparr> LEFT
        (map (\<lambda>x. (x, 0)) (iter (int 4))) False 0 False =
      Inr (True, v * 2, True, \<lparr>mWidth = int 4, mHeight = 1, mGrid = [v * 2, 0, 0, 0], mScore = s\<rparr>)"
proof -
  have nz: "v \<noteq> 0" using assms(1) by auto
  have d: "sint (v * 2) = 2 * sint v"
    using assms sint_double [of v] by simp
  then have rt: "(scast (ucast (v * 2) :: i32) :: i64) = v * 2"
    using assms by (intro int_round_trip) auto
  have pos: "0 <s v * 2" "0 \<le>s v * 2"
    using d assms(1) by (simp_all add: word_sless_alt word_sle_eq)
  show ?thesis
    using nz rt pos
    by (simp add: iter_def upt_rec slide_def get_ref_def get_dire_def slide_catch_def
        word_sless_alt word_sle_eq Let_def)
qed

subsection \<open>At most one merge in a line\<close>

text \<open>
  While every cell is below \<open>2^30\<close>, a merge returns a positive \<open>int\<close>: one call of
  \<open>slide\<close> either returns nothing positive and only moves cells, or returns a positive
  value and leaves exactly one cell fewer non-empty. The sweep of a line then merges at
  most once: after the first merge \<open>skip_merge\<close> is set and the rest only moves cells.
\<close>

lemma occupied_mset:
  "mset (mGrid g') = mset (mGrid g) \<Longrightarrow> occupied g' = occupied g"
  unfolding occupied_def by (metis mset_filter size_mset)

lemma occupied_keep:
  fixes xs :: "i64 list"
  shows "i < length xs \<Longrightarrow> xs ! i \<noteq> 0 \<Longrightarrow> v \<noteq> 0 \<Longrightarrow>
    length (filter (\<lambda>c. c \<noteq> 0) (xs[i := v])) = length (filter (\<lambda>c. c \<noteq> 0) xs)"
  by (induction xs arbitrary: i) (auto split: nat.splits)

lemma occupied_clear:
  fixes xs :: "i64 list"
  shows "i < length xs \<Longrightarrow> xs ! i \<noteq> 0 \<Longrightarrow>
    length (filter (\<lambda>c. c \<noteq> 0) (xs[i := 0])) + 1 = length (filter (\<lambda>c. c \<noteq> 0) xs)"
  by (induction xs arbitrary: i) (auto split: nat.splits)

lemma slide_effect_small:
  assumes eff: "slide_effect g False r g'"
    and small: "\<forall>c\<in>set (mGrid g). 0 \<le> sint c \<and> sint c < 2 ^ 30"
  shows "(\<not> 0 <s (scast r :: i64) \<and> mset (mGrid g') = mset (mGrid g)) \<or>
         (0 <s (scast r :: i64) \<and> occupied g' + 1 = occupied g)"
proof -
  consider (noop) "r = - 1" "g' = g"
    | (move) cur t where "cur < length (mGrid g)" "t < length (mGrid g)"
        "mGrid g ! t = 0" "r = 0" "g' = g\<lparr>mGrid := (mGrid g)[t := mGrid g ! cur, cur := 0]\<rparr>"
    | (merge) cur t where "cur < length (mGrid g)" "t < length (mGrid g)" "t \<noteq> cur"
        "mGrid g ! cur \<noteq> 0" "mGrid g ! t = mGrid g ! cur" "r = ucast (mGrid g ! t * 2)"
        "g' = g\<lparr>mGrid := (mGrid g)[t := mGrid g ! t * 2, cur := 0]\<rparr>"
    using eff unfolding slide_effect_def by blast
  then show ?thesis
  proof cases
    case noop
    then show ?thesis by (simp add: word_sless_alt)
  next
    case move
    have "mset ((mGrid g)[t := mGrid g ! cur, cur := mGrid g ! t]) = mset (mGrid g)"
      using move(1,2) by (rule mset_swap)
    then show ?thesis using move by (simp add: word_sless_alt)
  next
    case merge
    let ?v = "mGrid g ! t"
    have "?v \<in> set (mGrid g)" using merge(2) by simp
    then have b: "0 \<le> sint ?v" "sint ?v < 2 ^ 30" using small by auto
    have nz: "?v \<noteq> 0" using merge(4,5) by simp
    then have "sint ?v \<noteq> 0" by (metis signed_eq_0_iff)
    then have p: "0 < sint ?v" using b(1) by simp
    have d: "sint (?v * 2) = 2 * sint ?v"
      using b p by (intro sint_double) simp
    then have rt: "(scast (ucast (?v * 2) :: i32) :: i64) = ?v * 2"
      using b p by (intro int_round_trip) auto
    have pos: "0 <s ?v * 2" using d p by (simp add: word_sless_alt)
    then have nz2: "?v * 2 \<noteq> 0" by (auto simp: word_sless_alt)
    have "length (filter (\<lambda>c. c \<noteq> 0) ((mGrid g)[t := ?v * 2, cur := 0])) + 1 =
        length (filter (\<lambda>c. c \<noteq> 0) ((mGrid g)[t := ?v * 2]))"
      using merge(1,3,4) by (intro occupied_clear) simp_all
    also have "\<dots> = length (filter (\<lambda>c. c \<noteq> 0) (mGrid g))"
      using merge(2) nz nz2 by (intro occupied_keep)
    finally have "occupied g' + 1 = occupied g"
      using merge(7) by (simp add: occupied_def)
    then show ?thesis using pos rt merge(6) by simp
  qed
qed

lemma line_loop_merges_once:
  "well_formed g \<Longrightarrow>
   \<forall>(x, y)\<in>set ps. 0 \<le> x \<and> x < mWidth g \<and> 0 \<le> y \<and> y < mHeight g \<Longrightarrow>
   \<forall>c\<in>set (mGrid g). 0 \<le> sint c \<and> sint c < 2 ^ 30 \<Longrightarrow>
   \<exists>sk ns' hm' g'. line_loop g dire ps False ns hm = Inr (sk, ns', hm', g') \<and>
      (if sk then occupied g' + 1 = occupied g else mset (mGrid g') = mset (mGrid g))"
proof (induction ps arbitrary: g ns hm)
  case Nil
  then show ?case by auto
next
  case (Cons p ps)
  obtain x y where p: "p = (x, y)" by (cases p)
  have rng: "0 \<le> x" "x < mWidth g" "0 \<le> y" "y < mHeight g"
    using Cons.prems(2) by (auto simp: p)
  from slide_has_effect [OF Cons.prems(1) rng, of dire False]
  obtain r g1 where s: "slide g x y dire False = Inr (r, g1)" "slide_effect g False r g1"
    by blast
  from slide_effect_well_formed [OF s(2) Cons.prems(1)]
  have wf1: "well_formed g1" and dims: "mWidth g1 = mWidth g" "mHeight g1 = mHeight g" by auto
  have rng1: "\<forall>(x, y)\<in>set ps. 0 \<le> x \<and> x < mWidth g1 \<and> 0 \<le> y \<and> y < mHeight g1"
    using Cons.prems(2) dims by simp
  from slide_effect_small [OF s(2) Cons.prems(3)]
  show ?case
  proof
    assume a: "\<not> 0 <s (scast r :: i64) \<and> mset (mGrid g1) = mset (mGrid g)"
    then have "set (mGrid g1) = set (mGrid g)" by (metis set_mset_mset)
    then have "\<forall>c\<in>set (mGrid g1). 0 \<le> sint c \<and> sint c < 2 ^ 30"
      using Cons.prems(3) by simp
    from Cons.IH [OF wf1 rng1 this, of ns "if 0 \<le>s (scast r :: i64) then True else hm"]
    obtain sk ns' hm' g' where l: "line_loop g1 dire ps False ns
        (if 0 \<le>s (scast r :: i64) then True else hm) = Inr (sk, ns', hm', g')"
      "if sk then occupied g' + 1 = occupied g1 else mset (mGrid g') = mset (mGrid g1)"
      by blast
    have "line_loop g dire (p # ps) False ns hm = Inr (sk, ns', hm', g')"
      using s(1) a l(1) by (simp add: p Let_def)
    moreover have "if sk then occupied g' + 1 = occupied g else mset (mGrid g') = mset (mGrid g)"
      using l(2) a occupied_mset [of g1 g] by (simp split: if_splits)
    ultimately show ?thesis by blast
  next
    assume a: "0 <s (scast r :: i64) \<and> occupied g1 + 1 = occupied g"
    from line_loop_skip [OF wf1 rng1, of dire "ns + scast r" True]
    obtain hm' g' where l: "line_loop g1 dire ps True (ns + scast r) True =
        Inr (True, ns + scast r, hm', g')" "mset (mGrid g') = mset (mGrid g1)"
      by blast
    have "0 \<le>s (scast r :: i64)" using a by (simp add: word_sless_alt word_sle_eq)
    then have "line_loop g dire (p # ps) False ns hm = Inr (True, ns + scast r, hm', g')"
      using s(1) a l(1) by (simp add: p Let_def)
    moreover have "occupied g' + 1 = occupied g"
      using a occupied_mset [OF l(2)] by simp
    ultimately show ?thesis by auto
  qed
qed

lemma only_merge_row_merges_once:
  fixes n k m :: nat and row :: "i64 list" and s :: i64
  assumes len: "length row = n"
    and small: "\<forall>c\<in>set row. 0 \<le> sint c \<and> sint c < 2 ^ 30"
  shows "\<exists>v hm row'. only_merge
      \<lparr>mWidth = int n, mHeight = int (k + 1 + m),
       mGrid = replicate (k * n) 0 @ row @ replicate (m * n) 0, mScore = s\<rparr> LEFT =
    Inr (v, hm,
      \<lparr>mWidth = int n, mHeight = int (k + 1 + m),
       mGrid = replicate (k * n) 0 @ row' @ replicate (m * n) 0, mScore = s\<rparr>) \<and>
    length (filter (\<lambda>c. c \<noteq> 0) row) \<le> length (filter (\<lambda>c. c \<noteq> 0) row') + 1"
proof -
  let ?r = "\<lparr>mWidth = int n, mHeight = 1, mGrid = row, mScore = s\<rparr>"
  have wfr: "well_formed ?r" using len by (simp add: well_formed_def)
  have rng: "\<forall>(x, y)\<in>set (map (\<lambda>x. (x, 0)) (iter (int n))).
      0 \<le> x \<and> x < mWidth ?r \<and> 0 \<le> y \<and> y < mHeight ?r"
    by (auto simp: iter_def)
  have sm: "\<forall>c\<in>set (mGrid ?r). 0 \<le> sint c \<and> sint c < 2 ^ 30" using small by simp
  from line_loop_merges_once [OF wfr rng sm, of LEFT 0 False]
  obtain sk ns' hm' g' where l: "line_loop ?r LEFT (map (\<lambda>x. (x, 0)) (iter (int n))) False 0 False =
      Inr (sk, ns', hm', g')"
    "if sk then occupied g' + 1 = occupied ?r else mset (mGrid g') = mset (mGrid ?r)"
    by blast
  have "occupied ?r \<le> occupied g' + 1"
    using l(2) occupied_mset [of g' ?r] by (simp split: if_splits)
  then have "length (filter (\<lambda>c. c \<noteq> 0) row) \<le> length (filter (\<lambda>c. c \<noteq> 0) (mGrid g')) + 1"
    by (simp add: occupied_def)
  with only_merge_single_row [OF len l(1), of k m] show ?thesis by blast
qed

text \<open>Three lines of width 4 swept LEFT.\<close>

lemma line_2220:
  "line_loop \<lparr>mWidth = int 4, mHeight = 1, mGrid = [2, 2, 2, 0], mScore = s\<rparr> LEFT
        (map (\<lambda>x. (x, 0)) (iter (int 4))) False 0 False =
      Inr (True, 4, True, \<lparr>mWidth = int 4, mHeight = 1, mGrid = [4, 2, 0, 0], mScore = s\<rparr>)"
  by (simp add: iter_def upt_rec slide_def get_ref_def get_dire_def slide_catch_def
      word_sless_alt word_sle_eq)

lemma line_2240:
  "line_loop \<lparr>mWidth = int 4, mHeight = 1, mGrid = [2, 2, 4, 0], mScore = s\<rparr> LEFT
        (map (\<lambda>x. (x, 0)) (iter (int 4))) False 0 False =
      Inr (True, 4, True, \<lparr>mWidth = int 4, mHeight = 1, mGrid = [4, 4, 0, 0], mScore = s\<rparr>)"
  by (simp add: iter_def upt_rec slide_def get_ref_def get_dire_def slide_catch_def
      word_sless_alt word_sle_eq)

lemma line_int_overflow:
  "line_loop \<lparr>mWidth = int 4, mHeight = 1,
        mGrid = [1073741824, 1073741824, 2147483648, 0], mScore = s\<rparr> LEFT
        (map (\<lambda>x. (x, 0)) (iter (int 4))) False 0 False =
      Inr (False, 0, True,
        \<lparr>mWidth = int 4, mHeight = 1, mGrid = [4294967296, 0, 0, 0], mScore = s\<rparr>)"
  by (simp add: iter_def upt_rec slide_def get_ref_def get_dire_def slide_catch_def
      word_sless_alt word_sle_eq)

section \<open>Bounds-checked access\<close>

text \<open>
  C8. For coordinates outside \<open>[0, width) \<times> [0, height)\<close>, \<open>get\<close> and \<open>put\<close> fail with
  \<open>OutOfRange\<close> and \<open>put\<close> leaves the grid as it was (\<open>get\<close> never writes); for
  coordinates inside, \<open>get\<close> returns the cell at \<open>x + y * width\<close> and \<open>put\<close> stores the
  value there, so that on a well-formed grid \<open>get\<close> reads it back.
\<close>

theorem get_put_bounds:
  "(x < 0 \<or> mWidth g \<le> x \<or> y < 0 \<or> mHeight g \<le> y \<longrightarrow>
      get g x y = Inl OutOfRange \<and> put g x y val = (g, Inl OutOfRange)) \<and>
   (0 \<le> x \<and> x < mWidth g \<and> 0 \<le> y \<and> y < mHeight g \<longrightarrow>
      get g x y = Inr (mGrid g ! nat (x + y * mWidth g)) \<and>
      put g x y val = (g\<lparr>mGrid := (mGrid g)[nat (x + y * mWidth g) := val]\<rparr>, Inr ()) \<and>
      (well_formed g \<longrightarrow> get (fst (put g x y val)) x y = Inr val))"
  using cell_index_less [of g x y]
  by (auto simp: get_def put_def get_ref_def)

theorem get_put_bounds_witness:
  "get \<lparr>mWidth = 2, mHeight = 2, mGrid = [2, 4, 8, 16], mScore = 0\<rparr> 2 0 = Inl OutOfRange \<and>
   put \<lparr>mWidth = 2, mHeight = 2, mGrid = [2, 4, 8, 16], mScore = 0\<rparr> 2 0 32 =
     (\<lparr>mWidth = 2, mHeight = 2, mGrid = [2, 4, 8, 16], mScore = 0\<rparr>, Inl OutOfRange) \<and>
   get \<lparr>mWidth = 2, mHeight = 2, mGrid = [2, 4, 8, 16], mScore = 0\<rparr> 1 1 = Inr 16 \<and>
   put \<lparr>mWidth = 2, mHeight = 2, mGrid = [2, 4, 8, 16], mScore = 0\<rparr> 1 1 32 =
     (\<lparr>mWidth = 2, mHeight = 2, mGrid = [2, 4, 8, 32], mScore = 0\<rparr>, Inr ()) \<and>
   well_formed \<lparr>mWidth = 2, mHeight = 2, mGrid = [2, 4, 8, 16], mScore = 0\<rparr> \<and>
   get (fst (put \<lparr>mWidth = 2, mHeight = 2, mGrid = [2, 4, 8, 16], mScore = 0\<rparr> 1 1 32)) 1 1 =
     Inr 32"
proof -
  have w: "well_formed \<lparr>mWidth = 2, mHeight = 2, mGrid = [2, 4, 8, 16], mScore = 0\<rparr>"
    by (simp add: well_formed_def)
  from get_put_bounds [of 2 "\<lparr>mWidth = 2, mHeight = 2, mGrid = [2, 4, 8, 16], mScore = 0\<rparr>" 0 32]
    get_put_bounds [of 1 "\<lparr>mWidth = 2, mHeight = 2, mGrid = [2, 4, 8, 16], mScore = 0\<rparr>" 1 32] w
  show ?thesis by (simp add: get_def)
qed

section \<open>The lose condition\<close>

text \<open>
  On a board that is not full \<open>is_fail\<close> returns false. On a board that is not square
  it never returns true: when the board is wider than high, the test below the cell
  \<open>(0, height - 1)\<close> reads outside the grid, and when it is higher than wide, the test
  to the right of \<open>(width - 1, 0)\<close> does; \<open>is_fail\<close> returns false or throws before
  it gets past that cell. On a square board the guards are the right ones, and \<open>is_fail\<close>
  returns true exactly when the board is full and no two neighbours are equal.
\<close>

lemma is_fail_not_full: "\<not> is_full g \<Longrightarrow> is_fail g = Inr False"
  by (simp add: is_fail_def)

lemma is_fail_loop_stops:
  "(x, y) \<in> set ps \<Longrightarrow> is_fail_body g x y \<noteq> Inr False \<Longrightarrow> is_fail_loop g ps \<noteq> Inr True"
proof (induction ps)
  case Nil
  then show ?case by simp
next
  case (Cons p ps)
  obtain a b where p: "p = (a, b)" by (cases p)
  show ?case
  proof (cases "is_fail_body g a b")
    case (Inl e)
    then show ?thesis by (simp add: p)
  next
    case (Inr r)
    then show ?thesis using Cons by (cases r) (auto simp: p)
  qed
qed

lemma cur_eq_cases: "cur_eq g cur x y = Inl OutOfRange \<or> (\<exists>b. cur_eq g cur x y = Inr b)"
  by (cases "get g x y") (auto simp: cur_eq_def, metis error.exhaust)

lemma is_fail_body_wide:
  assumes "0 < mHeight g" "mHeight g < mWidth g"
  shows "is_fail_body g 0 (mHeight g - 1) \<noteq> Inr False"
proof -
  have below: "cur_eq g cur 0 (mHeight g) = Inl OutOfRange" for cur
    by (simp add: cur_eq_def get_def)
  obtain cur where c: "get g 0 (mHeight g - 1) = Inr cur"
    using assms by (simp add: get_def)
  show ?thesis
    using assms c below cur_eq_cases [of g cur 0 "mHeight g - 2"]
    by (auto simp: is_fail_body_def split: sum.splits bool.splits)
qed

lemma is_fail_body_tall:
  assumes "0 < mWidth g" "mWidth g < mHeight g"
  shows "is_fail_body g (mWidth g - 1) 0 \<noteq> Inr False"
proof -
  have right: "cur_eq g cur (mWidth g) 0 = Inl OutOfRange" for cur
    by (simp add: cur_eq_def get_def)
  obtain cur where c: "get g (mWidth g - 1) 0 = Inr cur"
    using assms by (simp add: get_def)
  show ?thesis
    using assms c right cur_eq_cases [of g cur "mWidth g - 1" 1]
      cur_eq_cases [of g cur "mWidth g - 2" 0]
    by (auto simp: is_fail_body_def split: sum.splits bool.splits)
qed

lemma is_fail_order_mem:
  "0 \<le> x \<Longrightarrow> x < mWidth g \<Longrightarrow> 0 \<le> y \<Longrightarrow> y < mHeight g \<Longrightarrow> (x, y) \<in> set (is_fail_order g)"
proof -
  assume a: "0 \<le> x" "x < mWidth g" "0 \<le> y" "y < mHeight g"
  have "x \<in> set (iter (mWidth g))" "y \<in> set (iter (mHeight g))"
    using a by (auto simp: iter_def image_iff intro: bexI [of _ "nat x"] bexI [of _ "nat y"])
  then show ?thesis by (auto simp: is_fail_order_def)
qed

lemma is_fail_never_true:
  assumes "0 < mWidth g" "0 < mHeight g" "mWidth g \<noteq> mHeight g"
  shows "is_fail g \<noteq> Inr True"
proof (cases "is_full g")
  case False
  then show ?thesis by (simp add: is_fail_def)
next
  case True
  have "is_fail_loop g (is_fail_order g) \<noteq> Inr True"
  proof (cases "mHeight g < mWidth g")
    case True
    have "(0, mHeight g - 1) \<in> set (is_fail_order g)"
      using assms by (intro is_fail_order_mem) auto
    then show ?thesis
      using is_fail_body_wide [OF assms(2) True] by (rule is_fail_loop_stops)
  next
    case False
    then have lt: "mWidth g < mHeight g" using assms(3) by simp
    have "(mWidth g - 1, 0) \<in> set (is_fail_order g)"
      using assms by (intro is_fail_order_mem) auto
    then show ?thesis
      using is_fail_body_tall [OF assms(1) lt] by (rule is_fail_loop_stops)
  qed
  then show ?thesis using True by (simp add: is_fail_def)
qed

lemma get_cell:
  "0 \<le> x \<Longrightarrow> x < mWidth g \<Longrightarrow> 0 \<le> y \<Longrightarrow> y < mHeight g \<Longrightarrow> get g x y = Inr (cell g x y)"
  by (simp add: get_def cell_def)

lemma is_fail_body_square:
  assumes "mWidth g = mHeight g" "0 \<le> x" "x < mWidth g" "0 \<le> y" "y < mHeight g"
  shows "is_fail_body g x y =
     Inr ((0 < y \<and> cell g x y = cell g x (y - 1)) \<or>
          (y + 1 < mHeight g \<and> cell g x y = cell g x (y + 1)) \<or>
          (0 < x \<and> cell g x y = cell g (x - 1) y) \<or>
          (x + 1 < mWidth g \<and> cell g x y = cell g (x + 1) y))"
  using assms by (auto simp: is_fail_body_def cur_eq_def get_def cell_def split: bool.splits)

lemma is_fail_loop_all:
  "\<forall>(x, y)\<in>set ps. is_fail_body g x y = Inr (E x y) \<Longrightarrow>
     is_fail_loop g ps = Inr (\<forall>(x, y)\<in>set ps. \<not> E x y)"
  by (induction ps) (auto split: bool.splits)

lemma is_fail_order_set:
  "set (is_fail_order g) = {(x, y). 0 \<le> x \<and> x < mWidth g \<and> 0 \<le> y \<and> y < mHeight g}"
proof -
  have "set (iter n) = {i. 0 \<le> i \<and> i < n}" for n
  proof (intro set_eqI iffI)
    fix i assume "i \<in> set (iter n)"
    then show "i \<in> {i. 0 \<le> i \<and> i < n}" by (auto simp: iter_def)
  next
    fix i assume "i \<in> {i. 0 \<le> i \<and> i < n}"
    then have "i = int (nat i)" "nat i \<in> set [0..<nat n]" by auto
    then show "i \<in> set (iter n)" unfolding iter_def set_map by (rule image_eqI)
  qed
  then show ?thesis by (auto simp: is_fail_order_def)
qed

lemma is_full_cells:
  assumes "well_formed g" "is_full g" "0 \<le> x" "x < mWidth g" "0 \<le> y" "y < mHeight g"
  shows "cell g x y \<noteq> 0"
proof -
  have "y * mWidth g \<le> (mHeight g - 1) * mWidth g"
    using assms by (intro mult_right_mono) auto
  then have "x + y * mWidth g < mWidth g * mHeight g"
    using assms by (simp add: algebra_simps)
  then have "nat (x + y * mWidth g) < nat (mWidth g * mHeight g)"
    using assms by (simp add: nat_less_iff)
  then show ?thesis
    using assms(2) by (auto simp: is_full_def list_ex_iff cell_def)
qed

lemma is_fail_square:
  assumes "well_formed g" "mWidth g = mHeight g"
  shows "is_fail g = Inr (is_full g \<and> \<not> spec_equal_neighbours g)"
proof (cases "is_full g")
  case False
  then show ?thesis by (simp add: is_fail_def)
next
  case True
  let ?E = "\<lambda>x y. (0 < y \<and> cell g x y = cell g x (y - 1)) \<or>
          (y + 1 < mHeight g \<and> cell g x y = cell g x (y + 1)) \<or>
          (0 < x \<and> cell g x y = cell g (x - 1) y) \<or>
          (x + 1 < mWidth g \<and> cell g x y = cell g (x + 1) y)"
  have "\<forall>(x, y)\<in>set (is_fail_order g). is_fail_body g x y = Inr (?E x y)"
    using is_fail_body_square [OF assms(2)] by (auto simp: is_fail_order_set)
  then have loop: "is_fail_loop g (is_fail_order g) =
      Inr (\<forall>(x, y)\<in>set (is_fail_order g). \<not> ?E x y)"
    by (rule is_fail_loop_all)
  have "(\<exists>(x, y)\<in>set (is_fail_order g). ?E x y) \<longleftrightarrow> spec_equal_neighbours g"
  proof
    assume "\<exists>(x, y)\<in>set (is_fail_order g). ?E x y"
    then obtain x y where r: "0 \<le> x" "x < mWidth g" "0 \<le> y" "y < mHeight g" and e: "?E x y"
      by (auto simp: is_fail_order_set)
    note nz = is_full_cells [OF assms(1) True]
    from e consider (up) "0 < y" "cell g x y = cell g x (y - 1)"
      | (down) "y + 1 < mHeight g" "cell g x y = cell g x (y + 1)"
      | (left) "0 < x" "cell g x y = cell g (x - 1) y"
      | (right) "x + 1 < mWidth g" "cell g x y = cell g (x + 1) y"
      by blast
    then show "spec_equal_neighbours g"
    proof cases
      case up
      then have "(x, y - 1) \<in> set (is_fail_order g)" "cell g x (y - 1) \<noteq> 0"
        "y - 1 + 1 < mHeight g" "cell g x (y - 1) = cell g x (y - 1 + 1)"
        using r nz [of x "y - 1"] by (auto simp: is_fail_order_set)
      then show ?thesis unfolding spec_equal_neighbours_def list_ex_iff by blast
    next
      case down
      then have "(x, y) \<in> set (is_fail_order g)" "cell g x y \<noteq> 0"
        using r nz [of x y] by (auto simp: is_fail_order_set)
      then show ?thesis unfolding spec_equal_neighbours_def list_ex_iff using down by blast
    next
      case left
      then have "(x - 1, y) \<in> set (is_fail_order g)" "cell g (x - 1) y \<noteq> 0"
        "x - 1 + 1 < mWidth g" "cell g (x - 1) y = cell g (x - 1 + 1) y"
        using r nz [of "x - 1" y] by (auto simp: is_fail_order_set)
      then show ?thesis unfolding spec_equal_neighbours_def list_ex_iff by blast
    next
      case right
      then have "(x, y) \<in> set (is_fail_order g)" "cell g x y \<noteq> 0"
        using r nz [of x y] by (auto simp: is_fail_order_set)
      then show ?thesis unfolding spec_equal_neighbours_def list_ex_iff using right by blast
    qed
  next
    assume "spec_equal_neighbours g"
    then show "\<exists>(x, y)\<in>set (is_fail_order g). ?E x y"
      unfolding spec_equal_neighbours_def list_ex_iff by fast
  qed
  then have "(\<forall>(x, y)\<in>set (is_fail_order g). \<not> ?E x y) \<longleftrightarrow> \<not> spec_equal_neighbours g"
    by blast
  then show ?thesis using True loop by (simp add: is_fail_def)
qed

text \<open>
  C1. On a full board \<open>is_fail\<close> should return true exactly when no two neighbouring
  cells are equal. The guards of the source compare \<open>y\<close> with \<open>width() - 1\<close> and \<open>x\<close>
  with \<open>height() - 1\<close>. On the 4 x 6 board of \<open>Game\<close>, full and without equal
  neighbours, the test to the right of the cell \<open>(3, 0)\<close> reads \<open>get(4, 0)\<close> and
  \<open>is_fail\<close> leaves with \<open>OutOfRange\<close> instead of returning true; so it does on the
  4 x 3 board of the class comment, and on the full 2 x 1 board \<open>[2, 2]\<close>, where it
  should return false. On a square board with the same pattern it returns true.
\<close>

theorem is_fail_out_of_range:
  "is_fail \<lparr>mWidth = 4, mHeight = 6,
      mGrid = [2, 4, 2, 4,  4, 2, 4, 2,  2, 4, 2, 4,  4, 2, 4, 2,  2, 4, 2, 4,
               4, 2, 4, 2],
      mScore = 0\<rparr> = Inl OutOfRange \<and>
   is_fail \<lparr>mWidth = 4, mHeight = 3,
      mGrid = [2, 4, 2, 4,  4, 2, 4, 2,  2, 4, 2, 4],
      mScore = 0\<rparr> = Inl OutOfRange \<and>
   is_fail \<lparr>mWidth = 2, mHeight = 1, mGrid = [2, 2], mScore = 0\<rparr> = Inl OutOfRange \<and>
   is_fail \<lparr>mWidth = 4, mHeight = 4,
      mGrid = [2, 4, 2, 4,  4, 2, 4, 2,  2, 4, 2, 4,  4, 2, 4, 2],
      mScore = 0\<rparr> = Inr True"
  by code_simp

section \<open>Merging\<close>

text \<open>
  C3 (amended). On a grid whose cells are all zero, \<open>only_merge\<close> in any direction
  changes nothing, reports no motion and returns \<open>-1\<close>, the value it returns whenever
  nothing moved (not 0); \<open>merge\<close> then adds nothing to the score.
\<close>

theorem only_merge_empty_grid:
  assumes "well_formed g" "\<forall>c\<in>set (mGrid g). c = 0"
  shows "only_merge g dire = Inr (- 1, False, g) \<and> merge g dire = Inr (- 1, False, g)"
proof -
  have "\<forall>l\<in>set (scan_order g dire). \<forall>(x, y)\<in>set l. 0 \<le> x \<and> x < mWidth g \<and> 0 \<le> y \<and>
      y < mHeight g \<and> mGrid g ! nat (x + y * mWidth g) = 0"
    using scan_order_in_range [of g dire] cell_index_less [OF assms(1)] assms(2)
    by (fastforce simp: in_set_conv_nth)
  then have "lines_loop g dire (scan_order g dire) 0 False = Inr (0, False, g)"
    by (rule lines_loop_zero)
  then have "only_merge g dire = Inr (- 1, False, g)"
    by (simp add: only_merge_def)
  then show ?thesis by (simp add: merge_def word_sless_alt)
qed

theorem only_merge_empty_grid_witness:
  "well_formed (new_Grid 4 6) \<and>
   list_all (\<lambda>c. c = 0) (mGrid (new_Grid 4 6)) \<and>
   only_merge (new_Grid 4 6) UP = Inr (- 1, False, (new_Grid 4 6)) \<and>
   merge (new_Grid 4 6) UP = Inr (- 1, False, (new_Grid 4 6))"
proof -
  have w: "well_formed (new_Grid 4 6)"
    and z: "\<forall>c\<in>set (mGrid (new_Grid 4 6)). c = 0"
    using new_Grid_well_formed [of 4 6] by simp_all
  from only_merge_empty_grid [OF w z, of UP] w z show ?thesis by (simp add: list_all_iff)
qed

text \<open>The claim as stated, with the returned value 0, fails on the empty 2 x 2 grid.\<close>

theorem only_merge_empty_grid_counterexample:
  "only_merge \<lparr>mWidth = 2, mHeight = 2, mGrid = [0, 0, 0, 0], mScore = 0\<rparr> LEFT =
     Inr (- 1, False, \<lparr>mWidth = 2, mHeight = 2, mGrid = [0, 0, 0, 0], mScore = 0\<rparr>) \<and>
   only_merge \<lparr>mWidth = 2, mHeight = 2, mGrid = [0, 0, 0, 0], mScore = 0\<rparr> LEFT \<noteq>
     Inr (0, False, \<lparr>mWidth = 2, mHeight = 2, mGrid = [0, 0, 0, 0], mScore = 0\<rparr>)"
  by code_simp

text \<open>
  C2 (amended). A line \<open>[2, 2, 2, 2]\<close> of a grid of width 4, with \<open>k\<close> empty lines above
  and \<open>m\<close> empty lines below, merged LEFT becomes \<open>[4, 2, 2, 0]\<close>: the first pair merges,
  \<open>skip_merge\<close> is then set for the rest of the line, and the other two tiles only
  slide. The value returned is 4.
\<close>

theorem merge_line_2222:
  "only_merge
      \<lparr>mWidth = 4, mHeight = int (k + 1 + m),
       mGrid = replicate (k * 4) 0 @ [2, 2, 2, 2] @ replicate (m * 4) 0, mScore = s\<rparr> LEFT =
    Inr (4, True,
      \<lparr>mWidth = 4, mHeight = int (k + 1 + m),
       mGrid = replicate (k * 4) 0 @ [4, 2, 2, 0] @ replicate (m * 4) 0, mScore = s\<rparr>)"
proof -
  have "line_loop \<lparr>mWidth = int 4, mHeight = 1, mGrid = [2, 2, 2, 2], mScore = s\<rparr> LEFT
        (map (\<lambda>x. (x, 0)) (iter (int 4))) False 0 False =
      Inr (True, 4, True, \<lparr>mWidth = int 4, mHeight = 1, mGrid = [4, 2, 2, 0], mScore = s\<rparr>)"
    by (simp add: iter_def upt_rec slide_def get_ref_def get_dire_def slide_catch_def
        word_sless_alt word_sle_eq)
  from only_merge_single_row [OF _ this, of k m] show ?thesis by simp
qed

text \<open>The claim as stated, with the result \<open>[4, 4, 0, 0]\<close>, fails on the 4 x 1 grid.\<close>

theorem merge_line_2222_counterexample:
  "only_merge \<lparr>mWidth = 4, mHeight = 1, mGrid = [2, 2, 2, 2], mScore = 0\<rparr> LEFT =
     Inr (4, True, \<lparr>mWidth = 4, mHeight = 1, mGrid = [4, 2, 2, 0], mScore = 0\<rparr>) \<and>
   only_merge \<lparr>mWidth = 4, mHeight = 1, mGrid = [2, 2, 2, 2], mScore = 0\<rparr> LEFT \<noteq>
     Inr (8, True, \<lparr>mWidth = 4, mHeight = 1, mGrid = [4, 4, 0, 0], mScore = 0\<rparr>)"
  by code_simp

text \<open>
  C4. A line \<open>[2, 2, 2, 0]\<close> of a grid of width 4, with \<open>k\<close> empty lines above and \<open>m\<close>
  empty lines below, merged LEFT becomes \<open>[4, 2, 0, 0]\<close>, not \<open>[4, 4, 0, 0]\<close>; and
  \<open>[2, 2, 4, 0]\<close> becomes \<open>[4, 4, 0, 0]\<close>, not \<open>[8, 0, 0, 0]\<close>: the tile just merged
  does not merge again. In general, while every tile is below \<open>2^30\<close>, the sweep of a
  line merges at most one pair: either \<open>skip_merge\<close> ends up set and exactly one cell
  fewer is non-empty, or the cells were only moved. This holds along any cells of any
  well-formed grid in every direction, and so for \<open>only_merge\<close> LEFT on any line between
  empty lines. \<open>skip_merge\<close> is however set from the \<open>int\<close> that \<open>slide\<close> returns
  (\<open>r > 0\<close>), and a merge into \<open>2^31\<close> returns a negative \<open>int\<close>: in the line
  \<open>[2^30, 2^30, 2^31, 0]\<close> the first two tiles merge into \<open>2^31\<close>, the flag stays
  unset, and the tile just merged merges again, with the third, into \<open>2^32\<close>.
\<close>

theorem skip_merge_from_int:
  "only_merge
      \<lparr>mWidth = 4, mHeight = int (k + 1 + m),
       mGrid = replicate (k * 4) 0 @ [2, 2, 2, 0] @ replicate (m * 4) 0, mScore = s\<rparr> LEFT =
    Inr (4, True,
      \<lparr>mWidth = 4, mHeight = int (k + 1 + m),
       mGrid = replicate (k * 4) 0 @ [4, 2, 0, 0] @ replicate (m * 4) 0, mScore = s\<rparr>) \<and>
   only_merge
      \<lparr>mWidth = 4, mHeight = int (k + 1 + m),
       mGrid = replicate (k * 4) 0 @ [2, 2, 4, 0] @ replicate (m * 4) 0, mScore = s\<rparr> LEFT =
    Inr (4, True,
      \<lparr>mWidth = 4, mHeight = int (k + 1 + m),
       mGrid = replicate (k * 4) 0 @ [4, 4, 0, 0] @ replicate (m * 4) 0, mScore = s\<rparr>) \<and>
   (well_formed g \<and>
    (\<forall>(x, y)\<in>set ps. 0 \<le> x \<and> x < mWidth g \<and> 0 \<le> y \<and> y < mHeight g) \<and>
    (\<forall>c\<in>set (mGrid g). 0 \<le> sint c \<and> sint c < 2 ^ 30) \<longrightarrow>
      (\<exists>sk ns' hm' g'. line_loop g dire ps False ns hm = Inr (sk, ns', hm', g') \<and>
         (if sk then occupied g' + 1 = occupied g
          else mset (mGrid g') = mset (mGrid g)))) \<and>
   (length row = n \<and> (\<forall>c\<in>set row. 0 \<le> sint c \<and> sint c < 2 ^ 30) \<longrightarrow>
      (\<exists>v hm row'.
         only_merge
           \<lparr>mWidth = int n, mHeight = int (k + 1 + m),
            mGrid = replicate (k * n) 0 @ row @ replicate (m * n) 0, mScore = s\<rparr> LEFT =
         Inr (v, hm,
           \<lparr>mWidth = int n, mHeight = int (k + 1 + m),
            mGrid = replicate (k * n) 0 @ row' @ replicate (m * n) 0, mScore = s\<rparr>) \<and>
         length (filter (\<lambda>c. c \<noteq> 0) row) \<le> length (filter (\<lambda>c. c \<noteq> 0) row') + 1)) \<and>
   only_merge
      \<lparr>mWidth = 4, mHeight = int (k + 1 + m),
       mGrid = replicate (k * 4) 0 @ [1073741824, 1073741824, 2147483648, 0] @
         replicate (m * 4) 0, mScore = s\<rparr> LEFT =
    Inr (0, True,
      \<lparr>mWidth = 4, mHeight = int (k + 1 + m),
       mGrid = replicate (k * 4) 0 @ [4294967296, 0, 0, 0] @ replicate (m * 4) 0,
       mScore = s\<rparr>)"
proof (intro conjI impI)
  show "only_merge
      \<lparr>mWidth = 4, mHeight = int (k + 1 + m),
       mGrid = replicate (k * 4) 0 @ [2, 2, 2, 0] @ replicate (m * 4) 0, mScore = s\<rparr> LEFT =
    Inr (4, True,
      \<lparr>mWidth = 4, mHeight = int (k + 1 + m),
       mGrid = replicate (k * 4) 0 @ [4, 2, 0, 0] @ replicate (m * 4) 0, mScore = s\<rparr>)"
    using only_merge_single_row [OF _ line_2220, of k m s] by simp
next
  show "only_merge
      \<lparr>mWidth = 4, mHeight = int (k + 1 + m),
       mGrid = replicate (k * 4) 0 @ [2, 2, 4, 0] @ replicate (m * 4) 0, mScore = s\<rparr> LEFT =
    Inr (4, True,
      \<lparr>mWidth = 4, mHeight = int (k + 1 + m),
       mGrid = replicate (k * 4) 0 @ [4, 4, 0, 0] @ replicate (m * 4) 0, mScore = s\<rparr>)"
    using only_merge_single_row [OF _ line_2240, of k m s] by simp
next
  assume "well_formed g \<and>
    (\<forall>(x, y)\<in>set ps. 0 \<le> x \<and> x < mWidth g \<and> 0 \<le> y \<and> y < mHeight g) \<and>
    (\<forall>c\<in>set (mGrid g). 0 \<le> sint c \<and> sint c < 2 ^ 30)"
  then show "\<exists>sk ns' hm' g'. line_loop g dire ps False ns hm = Inr (sk, ns', hm', g') \<and>
         (if sk then occupied g' + 1 = occupied g
          else mset (mGrid g') = mset (mGrid g))"
    by (intro line_loop_merges_once) simp_all
next
  assume "length row = n \<and> (\<forall>c\<in>set row. 0 \<le> sint c \<and> sint c < 2 ^ 30)"
  then show "\<exists>v hm row'.
         only_merge
           \<lparr>mWidth = int n, mHeight = int (k + 1 + m),
            mGrid = replicate (k * n) 0 @ row @ replicate (m * n) 0, mScore = s\<rparr> LEFT =
         Inr (v, hm,
           \<lparr>mWidth = int n, mHeight = int (k + 1 + m),
            mGrid = replicate (k * n) 0 @ row' @ replicate (m * n) 0, mScore = s\<rparr>) \<and>
         length (filter (\<lambda>c. c \<noteq> 0) row) \<le> length (filter (\<lambda>c. c \<noteq> 0) row') + 1"
    by (intro only_merge_row_merges_once) simp_all
next
  show "only_merge
      \<lparr>mWidth = 4, mHeight = int (k + 1 + m),
       mGrid = replicate (k * 4) 0 @ [1073741824, 1073741824, 2147483648, 0] @
         replicate (m * 4) 0, mScore = s\<rparr> LEFT =
    Inr (0, True,
      \<lparr>mWidth = 4, mHeight = int (k + 1 + m),
       mGrid = replicate (k * 4) 0 @ [4294967296, 0, 0, 0] @ replicate (m * 4) 0,
       mScore = s\<rparr>)"
    using only_merge_single_row [OF _ line_int_overflow, of k m s] by simp
qed

theorem skip_merge_from_int_witness:
  "well_formed \<lparr>mWidth = 4, mHeight = 1, mGrid = [2, 2, 4, 0], mScore = 0\<rparr> \<and>
   list_all (\<lambda>(x, y). 0 \<le> x \<and> x < 4 \<and> 0 \<le> y \<and> y < 1)
     [(0, 0), (1, 0), (2, 0), (3 :: int, 0 :: int)] \<and>
   list_all (\<lambda>c. 0 \<le> sint c \<and> sint c < 2 ^ 30) [2, 2, 4, 0 :: i64] \<and>
   (\<exists>sk ns' hm' g'.
      line_loop \<lparr>mWidth = 4, mHeight = 1, mGrid = [2, 2, 4, 0], mScore = 0\<rparr> LEFT
        [(0, 0), (1, 0), (2, 0), (3, 0)] False 0 False = Inr (sk, ns', hm', g') \<and>
      (if sk
       then occupied g' + 1 =
         occupied \<lparr>mWidth = 4, mHeight = 1, mGrid = [2, 2, 4, 0], mScore = 0\<rparr>
       else mset (mGrid g') =
         mset (mGrid \<lparr>mWidth = 4, mHeight = 1, mGrid = [2, 2, 4, 0], mScore = 0\<rparr>))) \<and>
   line_loop \<lparr>mWidth = 4, mHeight = 1, mGrid = [2, 2, 4, 0], mScore = 0\<rparr> LEFT
     [(0, 0), (1, 0), (2, 0), (3, 0)] False 0 False =
     Inr (True, 4, True, \<lparr>mWidth = 4, mHeight = 1, mGrid = [4, 4, 0, 0], mScore = 0\<rparr>) \<and>
   occupied \<lparr>mWidth = 4, mHeight = 1, mGrid = [4, 4, 0, 0], mScore = 0\<rparr> + 1 =
     occupied \<lparr>mWidth = 4, mHeight = 1, mGrid = [2, 2, 4, 0], mScore = 0\<rparr> \<and>
   (\<exists>v hm row'.
      only_merge \<lparr>mWidth = 4, mHeight = 3,
        mGrid = [0, 0, 0, 0] @ [2, 2, 4, 0] @ [0, 0, 0, 0], mScore = 0\<rparr> LEFT =
      Inr (v, hm, \<lparr>mWidth = 4, mHeight = 3,
        mGrid = [0, 0, 0, 0] @ row' @ [0, 0, 0, 0], mScore = 0\<rparr>) \<and>
      length (filter (\<lambda>c. c \<noteq> 0) [2, 2, 4, 0 :: i64]) \<le>
        length (filter (\<lambda>c. c \<noteq> 0) row') + 1) \<and>
   only_merge \<lparr>mWidth = 4, mHeight = 3,
      mGrid = [0, 0, 0, 0,  2, 2, 4, 0,  0, 0, 0, 0], mScore = 0\<rparr> LEFT =
     Inr (4, True, \<lparr>mWidth = 4, mHeight = 3,
      mGrid = [0, 0, 0, 0,  4, 4, 0, 0,  0, 0, 0, 0], mScore = 0\<rparr>) \<and>
   only_merge \<lparr>mWidth = 4, mHeight = 3,
      mGrid = [0, 0, 0, 0,  1073741824, 1073741824, 2147483648, 0,  0, 0, 0, 0],
      mScore = 0\<rparr> LEFT =
     Inr (0, True, \<lparr>mWidth = 4, mHeight = 3,
      mGrid = [0, 0, 0, 0,  4294967296, 0, 0, 0,  0, 0, 0, 0], mScore = 0\<rparr>)"
proof -
  let ?g = "\<lparr>mWidth = 4, mHeight = 1, mGrid = [2, 2, 4, 0], mScore = 0\<rparr>"
  let ?ps = "[(0, 0), (1, 0), (2, 0), (3 :: int, 0 :: int)]"
  note t = skip_merge_from_int [of 1 1 0 ?g ?ps LEFT 0 False "[2, 2, 4, 0]" 4]
  have w: "well_formed ?g"
    by (simp add: well_formed_def)
  have rng: "list_all (\<lambda>(x, y). 0 \<le> x \<and> x < 4 \<and> 0 \<le> y \<and> y < 1) ?ps"
    by simp
  have sm: "list_all (\<lambda>c. 0 \<le> sint c \<and> sint c < 2 ^ 30) [2, 2, 4, 0 :: i64]"
    by simp
  have h3: "well_formed ?g \<and>
      (\<forall>(x, y)\<in>set ?ps. 0 \<le> x \<and> x < mWidth ?g \<and> 0 \<le> y \<and> y < mHeight ?g) \<and>
      (\<forall>c\<in>set (mGrid ?g). 0 \<le> sint c \<and> sint c < 2 ^ 30)"
    by (simp add: well_formed_def)
  have h4: "length [2, 2, 4, 0 :: i64] = 4 \<and>
      (\<forall>c\<in>set [2, 2, 4, 0 :: i64]. 0 \<le> sint c \<and> sint c < 2 ^ 30)"
    by simp
  have e: "int (1 + 1 + 1) = 3" "int 4 = 4" "replicate (1 * 4) (0 :: i64) = [0, 0, 0, 0]"
    by (simp_all add: numeral_eq_Suc)
  have l: "line_loop ?g LEFT ?ps False 0 False =
      Inr (True, 4, True, \<lparr>mWidth = 4, mHeight = 1, mGrid = [4, 4, 0, 0], mScore = 0\<rparr>)"
    by code_simp
  have o: "occupied \<lparr>mWidth = 4, mHeight = 1, mGrid = [4, 4, 0, 0], mScore = 0\<rparr> + 1 =
      occupied ?g"
    by (simp add: occupied_def)
  from t h3 have c3: "\<exists>sk ns' hm' g'.
      line_loop ?g LEFT ?ps False 0 False = Inr (sk, ns', hm', g') \<and>
      (if sk then occupied g' + 1 = occupied ?g else mset (mGrid g') = mset (mGrid ?g))"
    by blast
  from t h4 have "\<exists>v hm row'.
      only_merge \<lparr>mWidth = int 4, mHeight = int (1 + 1 + 1),
        mGrid = replicate (1 * 4) 0 @ [2, 2, 4, 0] @ replicate (1 * 4) 0, mScore = 0\<rparr> LEFT =
      Inr (v, hm, \<lparr>mWidth = int 4, mHeight = int (1 + 1 + 1),
        mGrid = replicate (1 * 4) 0 @ row' @ replicate (1 * 4) 0, mScore = 0\<rparr>) \<and>
      length (filter (\<lambda>c. c \<noteq> 0) [2, 2, 4, 0 :: i64]) \<le>
        length (filter (\<lambda>c. c \<noteq> 0) row') + 1"
    by blast
  then have c4: "\<exists>v hm row'.
      only_merge \<lparr>mWidth = 4, mHeight = 3,
        mGrid = [0, 0, 0, 0] @ [2, 2, 4, 0] @ [0, 0, 0, 0], mScore = 0\<rparr> LEFT =
      Inr (v, hm, \<lparr>mWidth = 4, mHeight = 3,
        mGrid = [0, 0, 0, 0] @ row' @ [0, 0, 0, 0], mScore = 0\<rparr>) \<and>
      length (filter (\<lambda>c. c \<noteq> 0) [2, 2, 4, 0 :: i64]) \<le>
        length (filter (\<lambda>c. c \<noteq> 0) row') + 1"
    by (simp only: e)
  from t have c2: "only_merge \<lparr>mWidth = 4, mHeight = 3,
      mGrid = [0, 0, 0, 0,  2, 2, 4, 0,  0, 0, 0, 0], mScore = 0\<rparr> LEFT =
     Inr (4, True, \<lparr>mWidth = 4, mHeight = 3,
      mGrid = [0, 0, 0, 0,  4, 4, 0, 0,  0, 0, 0, 0], mScore = 0\<rparr>)"
    by (simp only: e append_Cons append_Nil)
  from t have c5: "only_merge \<lparr>mWidth = 4, mHeight = 3,
      mGrid = [0, 0, 0, 0,  1073741824, 1073741824, 2147483648, 0,  0, 0, 0, 0],
      mScore = 0\<rparr> LEFT =
     Inr (0, True, \<lparr>mWidth = 4, mHeight = 3,
      mGrid = [0, 0, 0, 0,  4294967296, 0, 0, 0,  0, 0, 0, 0], mScore = 0\<rparr>)"
    by (simp only: e append_Cons append_Nil)
  show ?thesis
    by (intro conjI w rng sm c3 l o c4 c2 c5)
qed

text \<open>
  C5. Two equal neighbouring tiles \<open>v\<close> in an otherwise empty line merge into one tile
  \<open>2v\<close>, and the value returned should be \<open>2v\<close>. For \<open>0 < v < 2^30\<close> it is (here for
  the tiles at the left end of a line of width 4, merged LEFT). \<open>slide\<close> however returns
  the doubled \<open>i64\<close> cell as an \<open>int\<close>: for \<open>v = 2^30\<close> the cell becomes \<open>2^31\<close>, the
  \<open>int\<close> returned is negative, and \<open>only_merge\<close> reports no motion and returns \<open>-1\<close>
  although the grid has changed.
\<close>

theorem slide_returns_int:
  "(0 < sint v \<and> sint v < 2 ^ 30 \<longrightarrow>
    only_merge
      \<lparr>mWidth = 4, mHeight = int (k + 1 + m),
       mGrid = replicate (k * 4) 0 @ [v, v, 0, 0] @ replicate (m * 4) 0, mScore = s\<rparr> LEFT =
    Inr (v * 2, True,
      \<lparr>mWidth = 4, mHeight = int (k + 1 + m),
       mGrid = replicate (k * 4) 0 @ [v * 2, 0, 0, 0] @ replicate (m * 4) 0, mScore = s\<rparr>)) \<and>
   only_merge
      \<lparr>mWidth = 4, mHeight = int (k + 1 + m),
       mGrid = replicate (k * 4) 0 @ [1073741824, 1073741824, 0, 0] @ replicate (m * 4) 0,
       mScore = s\<rparr> LEFT =
    Inr (- 1, False,
      \<lparr>mWidth = 4, mHeight = int (k + 1 + m),
       mGrid = replicate (k * 4) 0 @ [2147483648, 0, 0, 0] @ replicate (m * 4) 0,
       mScore = s\<rparr>)"
proof -
  have b: "line_loop
        \<lparr>mWidth = int 4, mHeight = 1, mGrid = [1073741824, 1073741824, 0, 0], mScore = s\<rparr> LEFT
        (map (\<lambda>x. (x, 0)) (iter (int 4))) False 0 False =
      Inr (False, 0, False,
        \<lparr>mWidth = int 4, mHeight = 1, mGrid = [2147483648, 0, 0, 0], mScore = s\<rparr>)"
    by (simp add: iter_def upt_rec slide_def get_ref_def get_dire_def slide_catch_def
        word_sless_alt word_sle_eq)
  from only_merge_single_row [OF _ line_vv00, of v k m s] only_merge_single_row [OF _ b, of k m]
  show ?thesis by simp
qed

theorem slide_returns_int_witness:
  "0 < sint (2 :: i64) \<and> sint (2 :: i64) < 2 ^ 30 \<and>
   only_merge \<lparr>mWidth = 4, mHeight = 3,
      mGrid = [0, 0, 0, 0,  2, 2, 0, 0,  0, 0, 0, 0],
      mScore = 0\<rparr> LEFT =
     Inr (4, True, \<lparr>mWidth = 4, mHeight = 3,
      mGrid = [0, 0, 0, 0,  4, 0, 0, 0,  0, 0, 0, 0],
      mScore = 0\<rparr>) \<and>
   only_merge \<lparr>mWidth = 4, mHeight = 3,
      mGrid = [0, 0, 0, 0,  1073741824, 1073741824, 0, 0,  0, 0, 0, 0],
      mScore = 0\<rparr> LEFT =
     Inr (- 1, False, \<lparr>mWidth = 4, mHeight = 3,
      mGrid = [0, 0, 0, 0,  2147483648, 0, 0, 0,  0, 0, 0, 0],
      mScore = 0\<rparr>)"
proof -
  have r: "replicate 4 (0 :: i64) = [0, 0, 0, 0]"
    by code_simp
  from slide_returns_int [of 2 1 1 0] show ?thesis by (simp add: r)
qed

section \<open>Invariants of a move\<close>

text \<open>
  C10. \<open>only_merge\<close> returns for every grid and direction, and the sum of all cells is
  the same afterwards: a slide moves a value, a merge replaces \<open>v\<close> and \<open>v\<close> by \<open>2v\<close>
  and 0. The sum is that of the \<open>i64\<close> cells, in their own arithmetic; read as signed
  integers the cells have the same sum too, as long as the magnitudes of the cells add up
  to less than \<open>2^63\<close>, so that no doubling leaves the \<open>i64\<close> range.
\<close>

theorem only_merge_preserves_sum:
  assumes "well_formed g"
  shows "\<exists>inc hm g'. only_merge g dire = Inr (inc, hm, g') \<and>
           sum_list (mGrid g') = sum_list (mGrid g) \<and>
           (abs_sum g < 2 ^ 63 \<longrightarrow> cell_sum g' = cell_sum g)"
proof -
  define P where "P g' \<longleftrightarrow> well_formed g' \<and> mWidth g' = mWidth g \<and> mHeight g' = mHeight g \<and>
      sum_list (mGrid g') = sum_list (mGrid g) \<and>
      (abs_sum g < 2 ^ 63 \<longrightarrow> abs_sum g' = abs_sum g \<and> cell_sum g' = cell_sum g)" for g'
  have step: "\<forall>g1 s r g2. P g1 \<longrightarrow> slide_effect g1 s r g2 \<longrightarrow> P g2"
    unfolding P_def
    using slide_effect_well_formed slide_effect_sum slide_effect_int_sum by metis
  have wfP: "\<forall>g'. P g' \<longrightarrow> well_formed g' \<and> mWidth g' = mWidth g \<and> mHeight g' = mHeight g"
    by (simp add: P_def)
  have "P g" using assms by (simp add: P_def)
  from only_merge_inv [OF step wfP this, of dire] show ?thesis
    unfolding P_def by blast
qed

theorem only_merge_preserves_sum_witness:
  "well_formed \<lparr>mWidth = 4, mHeight = 2,
      mGrid = [2, 2, 0, 4,  8, 8, 8, 0],
      mScore = 0\<rparr> \<and>
   abs_sum \<lparr>mWidth = 4, mHeight = 2,
      mGrid = [2, 2, 0, 4,  8, 8, 8, 0],
      mScore = 0\<rparr> < 2 ^ 63 \<and>
   (\<exists>inc hm g'. only_merge \<lparr>mWidth = 4, mHeight = 2,
      mGrid = [2, 2, 0, 4,  8, 8, 8, 0],
      mScore = 0\<rparr> LEFT = Inr (inc, hm, g') \<and>
      sum_list (mGrid g') = 32 \<and> cell_sum g' = 32)"
proof -
  have w: "well_formed \<lparr>mWidth = 4, mHeight = 2,
      mGrid = [2, 2, 0, 4,  8, 8, 8, 0],
      mScore = 0\<rparr>"
    by (simp add: well_formed_def)
  have a: "abs_sum \<lparr>mWidth = 4, mHeight = 2,
      mGrid = [2, 2, 0, 4,  8, 8, 8, 0],
      mScore = 0\<rparr> < 2 ^ 63"
    by (simp add: abs_sum_def)
  have c: "cell_sum \<lparr>mWidth = 4, mHeight = 2,
      mGrid = [2, 2, 0, 4,  8, 8, 8, 0],
      mScore = 0\<rparr> = 32"
    by (simp add: cell_sum_def)
  from only_merge_preserves_sum [OF w, of LEFT] w a c show ?thesis by auto
qed

text \<open>
  C9 (amended). \<open>merge\<close> returns for every grid and direction; it adds the value of
  \<open>only_merge\<close> to the score when that value is positive and leaves the score alone
  otherwise, in particular when nothing moved (the value is then \<open>-1\<close>). The score
  after is at least the score before provided the addition stays below \<open>2^63\<close>.
\<close>

theorem merge_score:
  assumes "well_formed g"
  shows "\<exists>increase hm g'. merge g dire = Inr (increase, hm, g') \<and>
           mScore g' = (if 0 <s increase then mScore g + increase else mScore g) \<and>
           (\<not> hm \<longrightarrow> increase = - 1 \<and> mScore g' = mScore g) \<and>
           (sint (mScore g) + sint increase < 2 ^ 63 \<longrightarrow> sint (mScore g) \<le> sint (mScore g'))"
proof -
  from only_merge_keeps_score [OF assms, of dire]
  obtain inc hm g1 where om: "only_merge g dire = Inr (inc, hm, g1)" "mScore g1 = mScore g"
    "\<not> hm \<longrightarrow> inc = - 1"
    by blast
  let ?g' = "if 0 <s inc then g1\<lparr>mScore := mScore g1 + inc\<rparr> else g1"
  have m: "merge g dire = Inr (inc, hm, ?g')"
    using om(1) by (simp add: merge_def)
  have s: "mScore ?g' = (if 0 <s inc then mScore g + inc else mScore g)"
    using om(2) by simp
  have n: "\<not> hm \<longrightarrow> inc = - 1 \<and> mScore ?g' = mScore g"
    using om(2,3) by (auto simp: word_sless_alt)
  have mono: "sint (mScore g) + sint inc < 2 ^ 63 \<longrightarrow> sint (mScore g) \<le> sint (mScore ?g')"
  proof (cases "0 <s inc")
    case True
    then have "0 < sint inc" by (simp add: word_sless_alt)
    then show ?thesis
      using sint_add_no_overflow [OF True, of "mScore g"] s True by auto
  next
    case False
    then show ?thesis using s by simp
  qed
  show ?thesis using m s n mono by blast
qed

theorem merge_score_witness:
  "well_formed \<lparr>mWidth = 2, mHeight = 1, mGrid = [2, 2], mScore = 100\<rparr> \<and>
   merge \<lparr>mWidth = 2, mHeight = 1, mGrid = [2, 2], mScore = 100\<rparr> LEFT = Inr (4, True, \<lparr>mWidth = 2, mHeight = 1, mGrid = [4, 0], mScore = 104\<rparr>) \<and>
   sint (100 :: i64) + sint (4 :: i64) < 2 ^ 63 \<and> sint (100 :: i64) \<le> sint (104 :: i64) \<and>
   well_formed \<lparr>mWidth = 2, mHeight = 1, mGrid = [2, 4], mScore = 100\<rparr> \<and>
   merge \<lparr>mWidth = 2, mHeight = 1, mGrid = [2, 4], mScore = 100\<rparr> LEFT = Inr (- 1, False, \<lparr>mWidth = 2, mHeight = 1, mGrid = [2, 4], mScore = 100\<rparr>)"
proof -
  have w1: "well_formed \<lparr>mWidth = 2, mHeight = 1, mGrid = [2, 2], mScore = 100\<rparr>"
    and w2: "well_formed \<lparr>mWidth = 2, mHeight = 1, mGrid = [2, 4], mScore = 100\<rparr>"
    by (simp_all add: well_formed_def)
  have e1: "merge \<lparr>mWidth = 2, mHeight = 1, mGrid = [2, 2], mScore = 100\<rparr> LEFT = Inr (4, True, \<lparr>mWidth = 2, mHeight = 1, mGrid = [4, 0], mScore = 104\<rparr>)"
    by code_simp
  have e2: "merge \<lparr>mWidth = 2, mHeight = 1, mGrid = [2, 4], mScore = 100\<rparr> LEFT = Inr (- 1, False, \<lparr>mWidth = 2, mHeight = 1, mGrid = [2, 4], mScore = 100\<rparr>)"
    by code_simp
  from merge_score [OF w1, of LEFT] merge_score [OF w2, of LEFT] w1 w2 e1 e2
  show ?thesis by simp
qed

text \<open>
  The claim as stated, for every grid state, fails where the addition overflows: with
  the score at \<open>2^63 - 1\<close> a merge worth 4 leaves the score at \<open>-2^63 + 3\<close>.
\<close>

theorem merge_score_counterexample:
  "merge \<lparr>mWidth = 2, mHeight = 1, mGrid = [2, 2], mScore = 9223372036854775807\<rparr> LEFT =
     Inr (4, True, \<lparr>mWidth = 2, mHeight = 1, mGrid = [4, 0], mScore = 9223372036854775811\<rparr>) \<and>
   sint (9223372036854775811 :: i64) < sint (9223372036854775807 :: i64)"
  by code_simp

section \<open>Placing tiles\<close>

text \<open>
  C6. On a full board \<open>generate\<close> returns true, changes nothing and draws nothing. On
  a board that is not full, when \<open>pos_dist\<close> was constructed for a grid \<open>g0\<close> with no
  more cells than this one and one of the draws hits an empty cell, it returns false and
  stores \<open>targetval\<close> in one cell that was empty; every non-empty cell keeps its value;
  and when \<open>targetval\<close> is not 0, exactly one more cell is non-empty than before.
  \<open>pos_dist\<close> is however static. Constructed at a call on a grid of one cell, it
  returns nothing but 0: on the board \<open>[2, 0]\<close>, which is not full, \<open>generate\<close> then
  has no result however many draws it makes. Constructed at a call on a 4 x 4 grid, it
  can return 15, which on a board of two cells is an access outside the array.
\<close>

theorem generate_static_pos_dist:
  assumes "well_formed g"
  shows "(is_full g \<longrightarrow> generate g targetval rand = Some (True, g, rand)) \<and>
     (\<not> is_full g \<and> mWidth g0 * mHeight g0 \<le> mWidth g * mHeight g \<and>
        drawn_from (pos_dist_init g0) rand \<and> (\<exists>p\<in>set rand. mGrid g ! nat p = 0) \<longrightarrow>
      (\<exists>i rand'. i < length (mGrid g) \<and> mGrid g ! i = 0 \<and>
         generate g targetval rand =
           Some (False, g\<lparr>mGrid := (mGrid g)[i := targetval]\<rparr>, rand') \<and>
         (\<forall>j < length (mGrid g). mGrid g ! j \<noteq> 0 \<longrightarrow>
            (mGrid g)[i := targetval] ! j = mGrid g ! j) \<and>
         (targetval \<noteq> 0 \<longrightarrow>
            occupied (g\<lparr>mGrid := (mGrid g)[i := targetval]\<rparr>) = occupied g + 1))) \<and>
     pos_dist_init (new_Grid 1 1) = (0, 0) \<and>
     drawn_from (0, 0) rand0 = (rand0 = replicate (length rand0) 0) \<and>
     is_full \<lparr>mWidth = 2, mHeight = 1, mGrid = [2, 0], mScore = s\<rparr> = False \<and>
     generate \<lparr>mWidth = 2, mHeight = 1, mGrid = [2, 0], mScore = s\<rparr> targetval
       (replicate n 0) = None \<and>
     pos_dist_init (new_Grid 4 4) = (0, 15) \<and>
     generate \<lparr>mWidth = 2, mHeight = 1, mGrid = [0, 0], mScore = s\<rparr> targetval
       (15 # rand1) = None"
proof (intro conjI impI)
  assume "is_full g"
  then show "generate g targetval rand = Some (True, g, rand)" by (simp add: generate_def)
next
  assume a: "\<not> is_full g \<and> mWidth g0 * mHeight g0 \<le> mWidth g * mHeight g \<and>
        drawn_from (pos_dist_init g0) rand \<and> (\<exists>p\<in>set rand. mGrid g ! nat p = 0)"
  then have "\<forall>p\<in>set rand. 0 \<le> p \<and> p < int (length (mGrid g))"
    using assms by (intro drawn_from_in_array [of g g0]) simp_all
  from generate_loop_hits [OF this, of targetval] a
  obtain i rand' where i: "i < length (mGrid g)" "mGrid g ! i = 0"
    "generate_loop g targetval rand = Some (g\<lparr>mGrid := (mGrid g)[i := targetval]\<rparr>, rand')"
    by blast
  have "generate g targetval rand = Some (False, g\<lparr>mGrid := (mGrid g)[i := targetval]\<rparr>, rand')"
    using a i(3) by (simp add: generate_def)
  moreover have "\<forall>j < length (mGrid g). mGrid g ! j \<noteq> 0 \<longrightarrow>
      (mGrid g)[i := targetval] ! j = mGrid g ! j"
    using i(2) by (metis nth_list_update_neq)
  moreover have "targetval \<noteq> 0 \<longrightarrow>
      occupied (g\<lparr>mGrid := (mGrid g)[i := targetval]\<rparr>) = occupied g + 1"
    using i(1,2) by (simp add: occupied_def occupied_update)
  ultimately show "\<exists>i rand'. i < length (mGrid g) \<and> mGrid g ! i = 0 \<and>
         generate g targetval rand =
           Some (False, g\<lparr>mGrid := (mGrid g)[i := targetval]\<rparr>, rand') \<and>
         (\<forall>j < length (mGrid g). mGrid g ! j \<noteq> 0 \<longrightarrow>
            (mGrid g)[i := targetval] ! j = mGrid g ! j) \<and>
         (targetval \<noteq> 0 \<longrightarrow>
            occupied (g\<lparr>mGrid := (mGrid g)[i := targetval]\<rparr>) = occupied g + 1)"
    using i(1,2) by blast
next
  show "pos_dist_init (new_Grid 1 1) = (0, 0)"
    by (simp add: pos_dist_init_def new_Grid_def reset_def)
next
  show "drawn_from (0, 0) rand0 = (rand0 = replicate (length rand0) 0)"
    by (rule drawn_from_zero)
next
  show "is_full \<lparr>mWidth = 2, mHeight = 1, mGrid = [2, 0], mScore = s\<rparr> = False"
    by (simp add: is_full_def upt_rec)
next
  show "generate \<lparr>mWidth = 2, mHeight = 1, mGrid = [2, 0], mScore = s\<rparr> targetval
       (replicate n 0) = None"
    by (rule generate_stale)
next
  show "pos_dist_init (new_Grid 4 4) = (0, 15)"
    by (simp add: pos_dist_init_def new_Grid_def reset_def)
next
  show "generate \<lparr>mWidth = 2, mHeight = 1, mGrid = [0, 0], mScore = s\<rparr> targetval
       (15 # rand1) = None"
    by (simp add: generate_def is_full_def upt_rec)
qed

theorem generate_static_pos_dist_witness:
  "well_formed \<lparr>mWidth = 2, mHeight = 2, mGrid = [2, 0, 4, 0], mScore = 0\<rparr> \<and>
   \<not> is_full \<lparr>mWidth = 2, mHeight = 2, mGrid = [2, 0, 4, 0], mScore = 0\<rparr> \<and>
   pos_dist_init (new_Grid 2 2) = (0, 3) \<and>
   drawn_from (pos_dist_init (new_Grid 2 2)) [0, 2, 3, 1] \<and>
   mWidth (new_Grid 2 2) * mHeight (new_Grid 2 2) \<le> 2 * 2 \<and>
   list_ex (\<lambda>p. [2, 0, 4, 0 :: i64] ! nat p = 0) [0, 2, 3, 1] \<and>
   (\<exists>i rand'. i < length [2, 0, 4, 0 :: i64] \<and> [2, 0, 4, 0 :: i64] ! i = 0 \<and>
      generate \<lparr>mWidth = 2, mHeight = 2, mGrid = [2, 0, 4, 0], mScore = 0\<rparr> 8 [0, 2, 3, 1] =
        Some (False,
          \<lparr>mWidth = 2, mHeight = 2, mGrid = [2, 0, 4, 0][i := 8], mScore = 0\<rparr>, rand')) \<and>
   generate \<lparr>mWidth = 2, mHeight = 2, mGrid = [2, 0, 4, 0], mScore = 0\<rparr> 8 [0, 2, 3, 1] =
     Some (False, \<lparr>mWidth = 2, mHeight = 2, mGrid = [2, 0, 4, 8], mScore = 0\<rparr>, [1]) \<and>
   occupied \<lparr>mWidth = 2, mHeight = 2, mGrid = [2, 0, 4, 8], mScore = 0\<rparr> =
     occupied \<lparr>mWidth = 2, mHeight = 2, mGrid = [2, 0, 4, 0], mScore = 0\<rparr> + 1 \<and>
   well_formed \<lparr>mWidth = 2, mHeight = 2, mGrid = [2, 4, 8, 16], mScore = 0\<rparr> \<and>
   is_full \<lparr>mWidth = 2, mHeight = 2, mGrid = [2, 4, 8, 16], mScore = 0\<rparr> \<and>
   generate \<lparr>mWidth = 2, mHeight = 2, mGrid = [2, 4, 8, 16], mScore = 0\<rparr> 8 [0, 2, 3, 1] =
     Some (True, \<lparr>mWidth = 2, mHeight = 2, mGrid = [2, 4, 8, 16], mScore = 0\<rparr>, [0, 2, 3, 1]) \<and>
   drawn_from (pos_dist_init (new_Grid 1 1)) [0, 0, 0] \<and>
   generate \<lparr>mWidth = 2, mHeight = 1, mGrid = [2, 0], mScore = 0\<rparr> 8 [0, 0, 0] = None"
proof -
  let ?g1 = "\<lparr>mWidth = 2, mHeight = 2, mGrid = [2, 0, 4, 0], mScore = 0\<rparr>"
  let ?g2 = "\<lparr>mWidth = 2, mHeight = 2, mGrid = [2, 4, 8, 16], mScore = 0\<rparr>"
  have w1: "well_formed ?g1" and w2: "well_formed ?g2"
    by (simp_all add: well_formed_def)
  have f1: "\<not> is_full ?g1" and f2: "is_full ?g2"
    by code_simp+
  have p: "pos_dist_init (new_Grid 2 2) = (0, 3)"
    by (simp add: pos_dist_init_def new_Grid_def reset_def)
  have d: "drawn_from (pos_dist_init (new_Grid 2 2)) [0, 2, 3, 1]"
    by (simp add: p drawn_from_def)
  have e: "generate ?g1 8 [0, 2, 3, 1] =
      Some (False, \<lparr>mWidth = 2, mHeight = 2, mGrid = [2, 0, 4, 8], mScore = 0\<rparr>, [1])"
    by code_simp
  have o: "occupied \<lparr>mWidth = 2, mHeight = 2, mGrid = [2, 0, 4, 8], mScore = 0\<rparr> =
      occupied ?g1 + 1"
    by (simp add: occupied_def)
  note t1 = generate_static_pos_dist [OF w1, of 8 "[0, 2, 3, 1]" "new_Grid 2 2" "[0, 0, 0]" 0 3 "[]"]
  note t2 = generate_static_pos_dist [OF w2, of 8 "[0, 2, 3, 1]" "new_Grid 2 2" "[0, 0, 0]" 0 3 "[]"]
  have m: "mWidth (new_Grid 2 2) * mHeight (new_Grid 2 2) \<le> 2 * 2"
    by (simp add: new_Grid_def reset_def)
  have x: "list_ex (\<lambda>p. [2, 0, 4, 0 :: i64] ! nat p = 0) [0, 2, 3, 1]"
    by simp
  have h: "\<not> is_full ?g1 \<and>
      mWidth (new_Grid 2 2) * mHeight (new_Grid 2 2) \<le> mWidth ?g1 * mHeight ?g1 \<and>
      drawn_from (pos_dist_init (new_Grid 2 2)) [0, 2, 3, 1] \<and>
      (\<exists>p\<in>set [0, 2, 3, 1]. mGrid ?g1 ! nat p = 0)"
    using f1 m d by simp
  from t1 h have "\<exists>i rand'. i < length (mGrid ?g1) \<and> mGrid ?g1 ! i = 0 \<and>
      generate ?g1 8 [0, 2, 3, 1] = Some (False, ?g1\<lparr>mGrid := (mGrid ?g1)[i := 8]\<rparr>, rand')"
    by blast
  then have c1: "\<exists>i rand'. i < length [2, 0, 4, 0 :: i64] \<and> [2, 0, 4, 0 :: i64] ! i = 0 \<and>
      generate ?g1 8 [0, 2, 3, 1] =
        Some (False,
          \<lparr>mWidth = 2, mHeight = 2, mGrid = [2, 0, 4, 0][i := 8], mScore = 0\<rparr>, rand')"
    by (simp only: Grid.select_convs Grid.update_convs)
  from t2 f2 have c2: "generate ?g2 8 [0, 2, 3, 1] = Some (True, ?g2, [0, 2, 3, 1])"
    by blast
  have r: "replicate 3 (0 :: int) = [0, 0, 0]"
    by (simp add: numeral_eq_Suc)
  from t1 have c3: "generate \<lparr>mWidth = 2, mHeight = 1, mGrid = [2, 0], mScore = 0\<rparr> 8
      (replicate 3 0) = None"
    by blast
  then have c3': "generate \<lparr>mWidth = 2, mHeight = 1, mGrid = [2, 0], mScore = 0\<rparr> 8
      [0, 0, 0] = None"
    by (simp only: r)
  from t1 have "pos_dist_init (new_Grid 1 1) = (0, 0)"
    by blast
  then have d0: "drawn_from (pos_dist_init (new_Grid 1 1)) [0, 0, 0]"
    by (simp add: drawn_from_def)
  show ?thesis
    by (intro conjI w1 f1 p d m x c1 e o w2 f2 c2 d0 c3')
qed

text \<open>
  C7. \<open>generate_randomly\<close> draws up to three flips from \<open>false_1i4\<close>, one of 0..3 each,
  a flip hitting when it is 0. With the flips \<open>f1\<close>, \<open>f2\<close>, \<open>f3\<close> next in line it calls
  \<open>generate\<close> with the value of the cascade (first miss: 2; hit, miss: 4; hit, hit, miss:
  8; three hits: 16) and hands it the draws after the last flip it looked at. Of the 64
  equally likely outcomes of three flips, 48 select 2, 12 select 4, 3 select 8 and 1
  selects 16: the weights 3/4, 3/16, 3/64 and 1/64.
\<close>

theorem generate_randomly_cascade:
  "generate_randomly g (f1 # f2 # f3 # rand) =
     generate g (spec_cascade f1 f2 f3)
       (if f1 \<noteq> 0 then f2 # f3 # rand else if f2 \<noteq> 0 then f3 # rand else rand) \<and>
   length all_flips = 64 \<and>
   weight 2 = 48 \<and> weight 4 = 12 \<and> weight 8 = 3 \<and> weight 16 = 1"
  by (simp add: generate_randomly_def spec_cascade_def weight_def all_flips_def iter_def upt_rec)

end
